theory Spec2Isabelle
  imports Complex_Main "HOL-Library.Sublist" "HOL-Library.AList"
begin

section \<open>Python values\<close>

text \<open>
  A Python \<open>str\<close> is modelled as a \<open>string\<close> whose characters are code points below
  256. A Python \<open>float\<close> is modelled as a \<open>real\<close>: arithmetic is exact, rounding of
  the binary representation is not modelled. A Python \<open>int\<close> is an \<open>int\<close>; \<open>//\<close> is
  \<open>div\<close> (both round towards minus infinity).
\<close>

definition py_isspace :: "char \<Rightarrow> bool" where
  \<comment> \<open>\<open>str.isspace\<close> on a code point below 256: tab, LF, VT, FF, CR, FS, GS, RS, US,
     space, NEL and the no-break space.\<close>
  "py_isspace c = (of_char c \<in> {9, 10, 11, 12, 13, 28, 29, 30, 31, 32, 133, 160 :: nat})"

definition py_lstrip :: "string \<Rightarrow> string" where
  "py_lstrip s = dropWhile py_isspace s"

definition py_rstrip :: "string \<Rightarrow> string" where
  "py_rstrip s = rev (dropWhile py_isspace (rev s))"

definition py_strip :: "string \<Rightarrow> string" where
  "py_strip s = py_rstrip (py_lstrip s)"

text \<open>\<open>s.split()\<close>: the maximal runs of characters that are not white space.\<close>

fun split_ws :: "string \<Rightarrow> string \<Rightarrow> string list" where
  "split_ws cur [] = (if cur = [] then [] else [cur])"
| "split_ws cur (c # cs) =
     (if py_isspace c then (if cur = [] then split_ws [] cs else cur # split_ws [] cs)
      else split_ws (cur @ [c]) cs)"

definition py_split :: "string \<Rightarrow> string list" where
  "py_split s = split_ws [] s"

text \<open>\<open>' '.join(ws)\<close>.\<close>

fun join_space :: "string list \<Rightarrow> string" where
  "join_space [] = []"
| "join_space [w] = w"
| "join_space (w # v # ws) = w @ CHR '' '' # join_space (v # ws)"

section \<open>The path parser (\<open>utils/svg_parser.py\<close>)\<close>

datatype SVGCommand =
    MOVE | MOVE_REL | LINE | LINE_REL | HORIZONTAL | HORIZONTAL_REL
  | VERTICAL | VERTICAL_REL | CUBIC_BEZIER | CUBIC_BEZIER_REL
  | CUBIC_BEZIER_SMOOTH | CUBIC_BEZIER_SMOOTH_REL
  | QUADRATIC_BEZIER | QUADRATIC_BEZIER_REL
  | QUADRATIC_BEZIER_SMOOTH | QUADRATIC_BEZIER_SMOOTH_REL
  | ARC | ARC_REL | CLOSE | CLOSE_REL

text \<open>The values of the enumeration; \<open>SVGCommand(s)\<close> looks a member up by its value
  and raises \<open>ValueError\<close> when there is none.\<close>

definition SVGCommand_values :: "(string \<times> SVGCommand) list" where
  "SVGCommand_values =
    [(''M'', MOVE), (''m'', MOVE_REL), (''L'', LINE), (''l'', LINE_REL),
     (''H'', HORIZONTAL), (''h'', HORIZONTAL_REL), (''V'', VERTICAL), (''v'', VERTICAL_REL),
     (''C'', CUBIC_BEZIER), (''c'', CUBIC_BEZIER_REL),
     (''S'', CUBIC_BEZIER_SMOOTH), (''s'', CUBIC_BEZIER_SMOOTH_REL),
     (''Q'', QUADRATIC_BEZIER), (''q'', QUADRATIC_BEZIER_REL),
     (''T'', QUADRATIC_BEZIER_SMOOTH), (''t'', QUADRATIC_BEZIER_SMOOTH_REL),
     (''A'', ARC), (''a'', ARC_REL), (''Z'', CLOSE), (''z'', CLOSE_REL)]"

definition SVGCommand_of :: "string \<Rightarrow> SVGCommand option" where
  "SVGCommand_of s = map_of SVGCommand_values s"

record PathCommand =
  command :: SVGCommand
  params :: "real list"

text \<open>The exceptions the parser can raise. Every \<open>ValueError\<close> carries what its message
  reports.\<close>

datatype value_error =
    EmptyPath
  | ExpectedCommand string
  | UnknownCommand string
  | WrongParamCount string nat nat

datatype parse_exn = ValueError value_error | ZeroDivisionError

subsection \<open>The two regular expressions\<close>

definition command_letters :: string where
  "command_letters = ''MmLlHhVvCcSsQqTtAaZz''"

text \<open>\<open>COMMAND_PATTERN.split(s)\<close>: the pattern is one capturing group, so the result
  alternates the text between two matches and the matched letter; \<open>cur\<close> is the text
  read since the last match.\<close>

fun command_split :: "string \<Rightarrow> string \<Rightarrow> string list" where
  "command_split cur [] = [cur]"
| "command_split cur (c # cs) =
     (if c \<in> set command_letters then cur # [c] # command_split [] cs
      else command_split (cur @ [c]) cs)"

definition is_digit :: "char \<Rightarrow> bool" where
  "is_digit c = (c \<in> set ''0123456789'')"

definition is_sign :: "char \<Rightarrow> bool" where
  "is_sign c = (c = CHR ''-'' \<or> c = CHR ''+'')"

text \<open>
  \<open>NUMBER_PATTERN\<close> is \<open>[-+]?[0-9]*\.?[0-9]+(?:[eE][-+]?[0-9]+)?\<close>. All its
  quantifiers are greedy, and the first alternative the backtracking matcher accepts is:
  an optional sign; then all the digits there are, and, when a dot and at least one digit
  follow, the dot and all the digits after it (with no digit before and none after the dot
  there is no match; digits followed by a dot and no digit match without the dot); then
  the exponent group when a letter e, an optional sign and at least one digit follow.
\<close>

definition match_mantissa :: "string \<Rightarrow> string" where
  \<comment> \<open>The text \<open>[0-9]*\.?[0-9]+\<close> matches at the start of \<open>s\<close>; empty when it does not
     match.\<close>
  "match_mantissa s =
     (let ds = takeWhile is_digit s in
      case dropWhile is_digit s of
        c # r \<Rightarrow>
          if c = CHR ''.'' \<and> takeWhile is_digit r \<noteq> [] then ds @ c # takeWhile is_digit r
          else ds
      | [] \<Rightarrow> ds)"

definition match_exponent :: "string \<Rightarrow> string" where
  \<comment> \<open>The text the optional group \<open>(?:[eE][-+]?[0-9]+)?\<close> matches at the start of \<open>s\<close>.\<close>
  "match_exponent s =
     (case s of
        [] \<Rightarrow> []
      | e # r \<Rightarrow>
          if e = CHR ''e'' \<or> e = CHR ''E'' then
            (case r of
               [] \<Rightarrow> []
             | c # r' \<Rightarrow>
                 if is_sign c then
                   (if takeWhile is_digit r' = [] then [] else e # c # takeWhile is_digit r')
                 else (if takeWhile is_digit r = [] then [] else e # takeWhile is_digit r))
          else [])"

definition match_number :: "string \<Rightarrow> string option" where
  \<comment> \<open>\<open>NUMBER_PATTERN.match(s)\<close>: the match at the start of \<open>s\<close>, if there is one.\<close>
  "match_number s =
     (let sg = (case s of [] \<Rightarrow> [] | c # _ \<Rightarrow> if is_sign c then [c] else []);
          r = drop (length sg) s;
          m = match_mantissa r
      in if m = [] then None else Some (sg @ m @ match_exponent (drop (length m) r)))"

lemma match_number_nonempty: "match_number s = Some m \<Longrightarrow> m \<noteq> []"
  by (auto simp: match_number_def Let_def split: if_splits)

text \<open>\<open>NUMBER_PATTERN.findall(s)\<close>: the matches from left to right, each search
  starting where the previous match ended.\<close>

function re_findall :: "string \<Rightarrow> string list" where
  "re_findall s =
     (if s = [] then []
      else case match_number s of
             None \<Rightarrow> re_findall (tl s)
           | Some m \<Rightarrow> m # re_findall (drop (length m) s))"
  by pat_completeness auto
termination
proof (relation "measure length")
  show "wf (measure length)" by simp
next
  fix s :: string
  assume "s \<noteq> []"
  then show "(tl s, s) \<in> measure length" by (cases s) simp_all
next
  fix s m :: string
  assume "s \<noteq> []" and "match_number s = Some m"
  then have "m \<noteq> []" by (simp add: match_number_nonempty)
  with \<open>s \<noteq> []\<close> show "(drop (length m) s, s) \<in> measure length"
    by (cases s; cases m) simp_all
qed

subsection \<open>\<open>float\<close> of a matched token\<close>

definition digit_value :: "char \<Rightarrow> nat" where
  "digit_value c = of_char c - 48"

definition digits_value :: "string \<Rightarrow> nat" where
  "digits_value ds = foldl (\<lambda>a c. 10 * a + digit_value c) 0 ds"

definition py_float :: "string \<Rightarrow> real" where
  \<comment> \<open>\<open>float(m)\<close> for a match \<open>m\<close> of \<open>NUMBER_PATTERN\<close>, on which it cannot raise: the
     decimal value of the token.\<close>
  "py_float tok =
     (let neg = (case tok of [] \<Rightarrow> False | c # _ \<Rightarrow> c = CHR ''-'');
          r = (case tok of [] \<Rightarrow> [] | c # t \<Rightarrow> if is_sign c then t else tok);
          ip = takeWhile is_digit r;
          r1 = dropWhile is_digit r;
          fp = (case r1 of [] \<Rightarrow> [] | c # t \<Rightarrow> if c = CHR ''.'' then takeWhile is_digit t else []);
          r2 = (case r1 of [] \<Rightarrow> [] | c # t \<Rightarrow> if c = CHR ''.'' then dropWhile is_digit t else r1);
          eneg = (case r2 of _ # c # _ \<Rightarrow> c = CHR ''-'' | _ \<Rightarrow> False);
          ed = (case r2 of [] \<Rightarrow> [] | _ # t \<Rightarrow>
                 (case t of [] \<Rightarrow> [] | c # t' \<Rightarrow> if is_sign c then t' else t));
          mant = real (digits_value ip) + real (digits_value fp) / 10 ^ length fp;
          v = (if eneg then mant / 10 ^ digits_value ed else mant * 10 ^ digits_value ed)
      in if neg then - v else v)"

subsection \<open>The parser\<close>

definition is_command :: "string \<Rightarrow> bool" where
  \<comment> \<open>\<open>len(s) == 1 and s in 'MmLlHhVvCcSsQqTtAaZz'\<close>\<close>
  "is_command s = (case s of [c] \<Rightarrow> c \<in> set command_letters | _ \<Rightarrow> False)"

definition parse_numbers :: "string \<Rightarrow> real list" where
  "parse_numbers param_str = map py_float (re_findall param_str)"

definition param_counts :: "(SVGCommand \<times> nat) list" where
  "param_counts =
    [(MOVE, 2), (MOVE_REL, 2), (LINE, 2), (LINE_REL, 2),
     (HORIZONTAL, 1), (HORIZONTAL_REL, 1), (VERTICAL, 1), (VERTICAL_REL, 1),
     (CUBIC_BEZIER, 6), (CUBIC_BEZIER_REL, 6),
     (CUBIC_BEZIER_SMOOTH, 4), (CUBIC_BEZIER_SMOOTH_REL, 4),
     (QUADRATIC_BEZIER, 4), (QUADRATIC_BEZIER_REL, 4),
     (QUADRATIC_BEZIER_SMOOTH, 2), (QUADRATIC_BEZIER_SMOOTH_REL, 2),
     (ARC, 7), (ARC_REL, 7), (CLOSE, 0), (CLOSE_REL, 0)]"

definition get_expected_param_count :: "SVGCommand \<Rightarrow> nat option" where
  "get_expected_param_count cmd = map_of param_counts cmd"

text \<open>\<open>_parse_command\<close>. The remainder \<open>len(params) % expected_params\<close> is computed
  whenever the two numbers differ; with \<open>expected_params = 0\<close> Python raises
  \<open>ZeroDivisionError\<close> there.\<close>

definition parse_command :: "string \<Rightarrow> real list \<Rightarrow> parse_exn + PathCommand" where
  "parse_command command_char ps =
     (case SVGCommand_of command_char of
        None \<Rightarrow> Inl (ValueError (UnknownCommand command_char))
      | Some cmd \<Rightarrow>
          (case get_expected_param_count cmd of
             None \<Rightarrow> Inr \<lparr>command = cmd, params = ps\<rparr>
           | Some expected \<Rightarrow>
               if length ps \<noteq> expected then
                 (if expected = 0 then Inl ZeroDivisionError
                  else if length ps mod expected \<noteq> 0 then
                    Inl (ValueError (WrongParamCount command_char expected (length ps)))
                  else Inr \<lparr>command = cmd, params = ps\<rparr>)
               else Inr \<lparr>command = cmd, params = ps\<rparr>))"

text \<open>
  The loop of \<open>parse\<close> over the segments. \<open>commands\<close> is the list built so far and
  \<open>warnings\<close> the command letters \<open>logger.warning\<close> was called for. The handler catches
  \<open>ValueError\<close> only; any other exception leaves \<open>parse\<close>.
\<close>

definition parse_step ::
  "string \<Rightarrow> real list \<Rightarrow> PathCommand list \<Rightarrow> string list \<Rightarrow>
   parse_exn + (PathCommand list \<times> string list)" where
  "parse_step command_char ps commands warnings =
     (case parse_command command_char ps of
        Inr cmd \<Rightarrow> Inr (commands @ [cmd], warnings)
      | Inl (ValueError e) \<Rightarrow> Inr (commands, warnings @ [command_char])
      | Inl ZeroDivisionError \<Rightarrow> Inl ZeroDivisionError)"

fun parse_loop ::
  "string list \<Rightarrow> PathCommand list \<Rightarrow> string list \<Rightarrow>
   parse_exn + (PathCommand list \<times> string list)" where
  "parse_loop [] commands warnings = Inr (commands, warnings)"
| "parse_loop [seg] commands warnings =
     (if \<not> is_command seg then Inl (ValueError (ExpectedCommand seg))
      else parse_step seg [] commands warnings)"
| "parse_loop (seg # p # rest) commands warnings =
     (if \<not> is_command seg then Inl (ValueError (ExpectedCommand seg))
      else if \<not> is_command p then
        (case parse_step seg (parse_numbers p) commands warnings of
           Inl e \<Rightarrow> Inl e
         | Inr (commands', warnings') \<Rightarrow> parse_loop rest commands' warnings')
      else
        (case parse_step seg [] commands warnings of
           Inl e \<Rightarrow> Inl e
         | Inr (commands', warnings') \<Rightarrow> parse_loop (p # rest) commands' warnings'))"

definition segments_of :: "string \<Rightarrow> string list" where
  \<comment> \<open>\<open>[s.strip() for s in COMMAND_PATTERN.split(path_data) if s.strip()]\<close>\<close>
  "segments_of path_data =
     map py_strip (filter (\<lambda>s. py_strip s \<noteq> []) (command_split [] path_data))"

definition parse :: "string \<Rightarrow> parse_exn + (PathCommand list \<times> string list)" where
  "parse path_data =
     (let path_data = py_strip path_data in
      if path_data = [] then Inl (ValueError EmptyPath)
      else parse_loop (segments_of path_data) [] [])"

subsection \<open>Which exceptions leave the parser\<close>

lemma is_command_iff: "is_command s \<longleftrightarrow> SVGCommand_of s \<noteq> None"
proof
  assume "is_command s"
  then obtain c where s: "s = [c]" and c: "c \<in> set command_letters"
    by (auto simp: is_command_def split: list.splits)
  from c show "SVGCommand_of s \<noteq> None"
    unfolding s by (auto simp: command_letters_def SVGCommand_of_def SVGCommand_values_def)
next
  assume "SVGCommand_of s \<noteq> None"
  then have "s \<in> fst ` set SVGCommand_values"
    by (simp add: SVGCommand_of_def map_of_eq_None_iff)
  then show "is_command s"
    by (auto simp: SVGCommand_values_def is_command_def command_letters_def)
qed

lemma get_expected_param_count_total: "\<exists>k. get_expected_param_count cmd = Some k"
  by (cases cmd) (simp_all add: get_expected_param_count_def param_counts_def)

lemma parse_step_errors: "parse_step c ps cmds w = Inl e \<Longrightarrow> e = ZeroDivisionError"
  by (auto simp: parse_step_def split: sum.splits parse_exn.splits)

lemma parse_loop_errors:
  "parse_loop segs cmds w = Inl e \<Longrightarrow>
     e = ZeroDivisionError \<or> (\<exists>seg. e = ValueError (ExpectedCommand seg))"
proof (induction segs cmds w rule: parse_loop.induct)
  case (1 commands warnings)
  then show ?case by simp
next
  case (2 seg commands warnings)
  then show ?case by (auto split: if_splits dest: parse_step_errors)
next
  case (3 seg p rest commands warnings)
  show ?case
  proof (cases "is_command seg")
    case False
    with 3 show ?thesis by auto
  next
    case seg: True
    show ?thesis
    proof (cases "is_command p")
      case False
      with seg 3 show ?thesis
        by (auto split: sum.splits dest: parse_step_errors)
    next
      case True
      with seg 3 show ?thesis
        by (auto split: sum.splits dest: parse_step_errors)
    qed
  qed
qed

lemma parse_errors:
  "parse s = Inl e \<Longrightarrow>
     e = ZeroDivisionError \<or> e = ValueError EmptyPath \<or>
     (\<exists>seg. e = ValueError (ExpectedCommand seg))"
  by (auto simp: parse_def Let_def split: if_splits dest: parse_loop_errors)

lemma parse_command_close_params:
  "ps \<noteq> [] \<Longrightarrow> parse_command ''Z'' ps = Inl ZeroDivisionError \<and>
                parse_command ''z'' ps = Inl ZeroDivisionError"
  by (simp add: parse_command_def SVGCommand_of_def SVGCommand_values_def
      get_expected_param_count_def param_counts_def)

text \<open>
  Claim C2, as the code has it. The claim says that a number of parameters that is not a
  multiple of the expected count makes the parse of the whole string fail. In the code
  \<open>_parse_command\<close> raises \<open>ValueError\<close> for such a command (for an expected count of at
  least one), and the handler in \<open>parse\<close> catches it: the command is left out with a
  warning, the loop goes on with the segments after it, and no parse ever ends in that
  error.
\<close>

theorem param_count_mismatch_skips_command:
  assumes "SVGCommand_of c = Some cmd"
      and "get_expected_param_count cmd = Some k"
      and "0 < k"
      and "length (parse_numbers p) mod k \<noteq> 0"
      and "\<not> is_command p"
  shows "parse_command c (parse_numbers p) =
           Inl (ValueError (WrongParamCount c k (length (parse_numbers p)))) \<and>
         parse_loop (c # p # rest) commands warnings =
           parse_loop rest commands (warnings @ [c]) \<and>
         parse s \<noteq> Inl (ValueError (WrongParamCount c' k' n'))"
proof -
  from assms(3,4) have ne: "length (parse_numbers p) \<noteq> k" by auto
  have pc: "parse_command c (parse_numbers p) =
           Inl (ValueError (WrongParamCount c k (length (parse_numbers p))))"
    using assms ne by (simp add: parse_command_def)
  have ic: "is_command c" using assms(1) by (simp add: is_command_iff)
  have "parse_loop (c # p # rest) commands warnings = parse_loop rest commands (warnings @ [c])"
    using ic assms(5) pc by (simp add: parse_step_def)
  moreover have "parse s \<noteq> Inl (ValueError (WrongParamCount c' k' n'))"
    using parse_errors[of s] by auto
  ultimately show ?thesis using pc by simp
qed

theorem param_count_mismatch_skips_command_witness:
  "parse_command ''L'' [1] = Inl (ValueError (WrongParamCount ''L'' 2 1)) \<and>
   parse_loop [''L'', ''1'', ''Z''] [] [] = Inr ([\<lparr>command = CLOSE, params = []\<rparr>], [''L'']) \<and>
   parse ''M 0 0 L 1 Z'' \<noteq> Inl (ValueError (WrongParamCount ''L'' 2 1))"
proof -
  have a: "SVGCommand_of ''L'' = Some LINE" by code_simp
  have b: "get_expected_param_count LINE = Some 2" by code_simp
  have n: "parse_numbers ''1'' = [1]" by code_simp
  have c: "length (parse_numbers ''1'') mod 2 \<noteq> 0" by (simp add: n)
  have d: "\<not> is_command ''1''" by code_simp
  have e: "parse_loop [''Z''] [] ([] @ [''L'']) =
      Inr ([\<lparr>command = CLOSE, params = []\<rparr>], [''L''])"
    by code_simp
  have k: "(0::nat) < 2" by simp
  note t = param_count_mismatch_skips_command [OF a b k c d,
      where rest = "[''Z'']" and commands = "[]" and warnings = "[]"
        and s = "''M 0 0 L 1 Z''" and c' = "''L''" and k' = 2 and n' = 1]
  have t1: "parse_command ''L'' [1] = Inl (ValueError (WrongParamCount ''L'' 2 1))"
    using t [THEN conjunct1] by (simp add: n)
  have t2: "parse_loop [''L'', ''1'', ''Z''] [] [] =
      Inr ([\<lparr>command = CLOSE, params = []\<rparr>], [''L''])"
    by (rule trans [OF t [THEN conjunct2, THEN conjunct1] e])
  have t3: "parse ''M 0 0 L 1 Z'' \<noteq> Inl (ValueError (WrongParamCount ''L'' 2 1))"
    by (rule t [THEN conjunct2, THEN conjunct2])
  from t1 t2 t3 show ?thesis by (intro conjI)
qed

text \<open>
  Claim C2 as stated fails: after \<open>L\<close> with one number the parse returns the commands
  it accepted, and \<open>M\<close> with no number at all is accepted.
\<close>

theorem param_count_mismatch_counterexample:
  "parse ''M 0 0 L 1'' = Inr ([\<lparr>command = MOVE, params = [0, 0]\<rparr>], [''L'']) \<and>
   parse ''M'' = Inr ([\<lparr>command = MOVE, params = []\<rparr>], [])"
  by code_simp

text \<open>
  Claim C3 at the failing input. A letter that is not a command letter is not split off
  by \<open>COMMAND_PATTERN\<close>; where it starts the path, the first segment is not a command
  and \<open>parse\<close> raises \<open>ValueError\<close> for the whole string. Inside the parameters of a
  command it is passed over by \<open>NUMBER_PATTERN\<close> without a warning, and the numbers after
  it count as parameters of the command before it.
\<close>

theorem unknown_letter_aborts_parse:
  "parse ''X M 10 10'' = Inl (ValueError (ExpectedCommand ''X'')) \<and>
   parse ''M 0 0 X 5 5 L 1 1'' =
     Inr ([\<lparr>command = MOVE, params = [0, 0, 5, 5]\<rparr>, \<lparr>command = LINE, params = [1, 1]\<rparr>], [])"
  by code_simp

text \<open>
  Claim C9: a close command followed by a number takes the parser to the remainder by
  the expected count 0; the \<open>ZeroDivisionError\<close> is not a \<open>ValueError\<close>, the handler
  does not catch it and it leaves \<open>parse\<close>.
\<close>

theorem close_with_params_raises_zero_division:
  "parse ''M 0 0 Z 5'' = Inl ZeroDivisionError \<and>
   parse ''M 0 0 z 5'' = Inl ZeroDivisionError \<and>
   parse_command ''Z'' [5] = Inl ZeroDivisionError"
  by code_simp

section \<open>Text measurement and fitting (\<open>core/text_utils.py\<close>)\<close>

text \<open>
  The canvas is ReportLab's. The text code reads \<open>stringWidth(text, fontName, fontSize)\<close>
  of it, which depends on the font metrics only, and issues drawing calls, which the model
  appends to a list.
\<close>

datatype canvas_op =
    SetFont string int
  | SetFillColorRGB real real real
  | DrawString real real string
  | DrawCentredString real real string
  | DrawRightString real real string

record Canvas =
  stringWidth :: "string \<Rightarrow> string \<Rightarrow> int \<Rightarrow> real"
  ops :: "canvas_op list"

text \<open>\<open>RuntimeError\<close> is raised by the renderer without a canvas, \<open>ValidationError\<close>
  by a pydantic model whose field constraints (\<open>ge\<close>, \<open>le\<close>) do not hold.\<close>

datatype render_exn = RuntimeError | ValidationError

record TextMetrics =
  width_pts :: real
  height_pts :: real
  line_count :: int
  fits_within_bounds :: bool

definition TextMetrics_new :: "real \<Rightarrow> real \<Rightarrow> int \<Rightarrow> bool \<Rightarrow> render_exn + TextMetrics" where
  \<comment> \<open>The constructor: \<open>width_pts\<close> and \<open>height_pts\<close> have \<open>ge=0.0\<close>, \<open>line_count\<close> has
     \<open>ge=1\<close>.\<close>
  "TextMetrics_new w h n f =
     (if 0 \<le> w \<and> 0 \<le> h \<and> 1 \<le> n
      then Inr \<lparr>width_pts = w, height_pts = h, line_count = n, fits_within_bounds = f\<rparr>
      else Inl ValidationError)"

definition calculate_line_height :: "int \<Rightarrow> real" where
  "calculate_line_height font_size_pt = real_of_int font_size_pt * (12 / 10)"

definition measure_text ::
  "Canvas \<Rightarrow> string \<Rightarrow> string \<Rightarrow> int \<Rightarrow> real \<Rightarrow> real option \<Rightarrow> string list option \<Rightarrow>
   render_exn + TextMetrics" where
  "measure_text c content font_name font_size max_width max_height lines =
     (let n = (case lines of Some ls \<Rightarrow> int (length ls) | None \<Rightarrow> 1);
          w = (case lines of
                 Some ls \<Rightarrow>
                   if ls \<noteq> [] then Max (set (map (\<lambda>line. stringWidth c line font_name font_size) ls))
                   else 0
               | None \<Rightarrow> stringWidth c content font_name font_size);
          h = (case lines of
                 Some ls \<Rightarrow> calculate_line_height font_size * real (length ls)
               | None \<Rightarrow> calculate_line_height font_size);
          fits_width = (w \<le> max_width);
          fits_height = (case max_height of None \<Rightarrow> True | Some mh \<Rightarrow> h \<le> mh)
      in TextMetrics_new w h n (fits_width \<and> fits_height))"

text \<open>The binary search of \<open>shrink_to_fit\<close>; the loop variables are \<open>low\<close>, \<open>high\<close> and
  \<open>best_size\<close>.\<close>

function shrink_loop ::
  "Canvas \<Rightarrow> string \<Rightarrow> string \<Rightarrow> real \<Rightarrow> int \<Rightarrow> int \<Rightarrow> int \<Rightarrow> render_exn + int" where
  "shrink_loop c content font_name max_width low high best_size =
     (if low \<le> high then
        (let mid = (low + high) div 2 in
         case measure_text c content font_name mid max_width None None of
           Inl e \<Rightarrow> Inl e
         | Inr metrics \<Rightarrow>
             if fits_within_bounds metrics
             then shrink_loop c content font_name max_width (mid + 1) high mid
             else shrink_loop c content font_name max_width low (mid - 1) best_size)
      else Inr best_size)"
  by pat_completeness auto
termination
  by (relation "measure (\<lambda>(c, content, font_name, max_width, low, high, best_size).
        nat (high - low + 1))") auto

definition shrink_to_fit ::
  "Canvas \<Rightarrow> string \<Rightarrow> string \<Rightarrow> int \<Rightarrow> real \<Rightarrow> int \<Rightarrow> render_exn + int" where
  "shrink_to_fit c content font_name initial_size max_width min_size =
     shrink_loop c content font_name max_width min_size initial_size min_size"

text \<open>
  \<open>wrap_text\<close>. \<open>max_lines\<close> is \<open>int | None\<close> and is tested for truth: \<open>None\<close> and \<open>0\<close>
  both mean no limit. The loop over the words carries \<open>lines\<close> and \<open>current_line\<close>;
  \<open>break\<close> ends it with the words that are left unread.
\<close>

definition limit_of :: "int option \<Rightarrow> int option" where
  \<comment> \<open>the limit \<open>max_lines\<close> stands for where it is true\<close>
  "limit_of max_lines = (case max_lines of None \<Rightarrow> None | Some n \<Rightarrow> if n = 0 then None else Some n)"

fun wrap_loop ::
  "Canvas \<Rightarrow> string \<Rightarrow> int \<Rightarrow> real \<Rightarrow> int option \<Rightarrow> string list \<Rightarrow> string list \<Rightarrow> string list \<Rightarrow>
   string list \<times> string list" where
  "wrap_loop c font_name font_size max_width max_lines [] lines current_line =
     (lines, current_line)"
| "wrap_loop c font_name font_size max_width max_lines (word # words) lines current_line =
     (let test_line = join_space (current_line @ [word]);
          test_width = stringWidth c test_line font_name font_size;
          (lines', current_line') =
            (if test_width \<le> max_width then (lines, current_line @ [word])
             else if current_line \<noteq> [] then (lines @ [join_space current_line], [word])
             else (lines @ [word], current_line))
      in case limit_of max_lines of
           None \<Rightarrow> wrap_loop c font_name font_size max_width max_lines words lines' current_line'
         | Some n \<Rightarrow>
             if int (length lines') \<ge> n then (lines', current_line')
             else wrap_loop c font_name font_size max_width max_lines words lines' current_line')"

definition py_slice_to :: "int \<Rightarrow> 'a list \<Rightarrow> 'a list" where
  \<comment> \<open>\<open>xs[:n]\<close>; a negative \<open>n\<close> counts from the end\<close>
  "py_slice_to n xs = (if 0 \<le> n then take (nat n) xs else take (nat (int (length xs) + n)) xs)"

definition wrap_text ::
  "Canvas \<Rightarrow> string \<Rightarrow> string \<Rightarrow> int \<Rightarrow> real \<Rightarrow> int option \<Rightarrow> string list" where
  "wrap_text c content font_name font_size max_width max_lines =
     (let words = py_split content;
          (lines, current_line) =
             wrap_loop c font_name font_size max_width max_lines words [] [];
          lines = (if current_line \<noteq> [] \<and>
                      (case limit_of max_lines of None \<Rightarrow> True | Some n \<Rightarrow> int (length lines) < n)
                   then lines @ [join_space current_line] else lines)
      in case limit_of max_lines of None \<Rightarrow> lines | Some n \<Rightarrow> py_slice_to n lines)"

section \<open>The data model of text (\<open>core/models.py\<close>)\<close>

text \<open>The fields of a class are the fields of a record; a field \<open>f\<close> of \<open>text\<close>, \<open>panel\<close>
  or a colour is written \<open>text_f\<close>, \<open>panel_f\<close>, \<open>color_f\<close>.\<close>

datatype FontStyle = NORMAL | BOLD | ITALIC | BOLD_ITALIC

datatype TextAlignment = LEFT | CENTER | RIGHT

datatype OverflowStrategy = AUTO | SHRINK | WRAP | TRUNCATE

record Color =
  color_r :: real
  color_g :: real
  color_b :: real

definition valid_Color :: "Color \<Rightarrow> bool" where
  "valid_Color col =
     (0 \<le> color_r col \<and> color_r col \<le> 1 \<and> 0 \<le> color_g col \<and> color_g col \<le> 1 \<and>
      0 \<le> color_b col \<and> color_b col \<le> 1)"

record AdjustmentResult =
  was_adjusted :: bool
  strategy_applied :: OverflowStrategy
  original_font_size :: int
  final_font_size :: int
  lines_used :: int
  content_truncated :: bool

definition AdjustmentResult_new ::
  "bool \<Rightarrow> OverflowStrategy \<Rightarrow> int \<Rightarrow> int \<Rightarrow> int \<Rightarrow> bool \<Rightarrow> render_exn + AdjustmentResult" where
  \<comment> \<open>The constructor: both font sizes have \<open>ge=6, le=144\<close>, \<open>lines_used\<close> has \<open>ge=1\<close>.\<close>
  "AdjustmentResult_new adjusted strategy original final used truncated =
     (if 6 \<le> original \<and> original \<le> 144 \<and> 6 \<le> final \<and> final \<le> 144 \<and> 1 \<le> used
      then Inr \<lparr>was_adjusted = adjusted, strategy_applied = strategy,
                original_font_size = original, final_font_size = final,
                lines_used = used, content_truncated = truncated\<rparr>
      else Inl ValidationError)"

record TextElement =
  text_id :: string
  text_content :: string
  text_x :: real
  text_y :: real
  text_width :: "real option"
  text_font_family :: string
  text_font_size :: int
  text_font_style :: FontStyle
  text_color :: "Color option"
  text_alignment :: TextAlignment
  text_rotation :: real
  text_z_index :: int
  text_overflow_strategy :: OverflowStrategy
  text_max_lines :: "int option"
  text_min_font_size :: int
  text_adjustment_applied :: "AdjustmentResult option"

definition valid_TextElement :: "TextElement \<Rightarrow> bool" where
  \<comment> \<open>the field constraints pydantic checks when a \<open>TextElement\<close> is made\<close>
  "valid_TextElement t =
     (1 \<le> length (text_content t) \<and> length (text_content t) \<le> 1000 \<and>
      0 \<le> text_x t \<and> 0 \<le> text_y t \<and>
      (case text_width t of None \<Rightarrow> True | Some w \<Rightarrow> 0 \<le> w) \<and>
      6 \<le> text_font_size t \<and> text_font_size t \<le> 144 \<and>
      (case text_color t of None \<Rightarrow> True | Some col \<Rightarrow> valid_Color col) \<and>
      (case text_max_lines t of None \<Rightarrow> True | Some n \<Rightarrow> 1 \<le> n) \<and>
      6 \<le> text_min_font_size t \<and> text_min_font_size t \<le> 72)"

definition get_adjustment_result :: "TextElement \<Rightarrow> AdjustmentResult option" where
  "get_adjustment_result t = text_adjustment_applied t"

definition set_adjustment_result :: "TextElement \<Rightarrow> AdjustmentResult \<Rightarrow> TextElement" where
  "set_adjustment_result t result = t\<lparr>text_adjustment_applied := Some result\<rparr>"

text \<open>Of a panel the text code reads the position and the size.\<close>

record Panel =
  panel_x :: real
  panel_y :: real
  panel_width :: real
  panel_height :: real

definition FontStyle_value :: "FontStyle \<Rightarrow> string" where
  "FontStyle_value st =
     (case st of NORMAL \<Rightarrow> ''normal'' | BOLD \<Rightarrow> ''bold'' | ITALIC \<Rightarrow> ''italic''
      | BOLD_ITALIC \<Rightarrow> ''bold_italic'')"

definition TextAlignment_value :: "TextAlignment \<Rightarrow> string" where
  "TextAlignment_value a =
     (case a of LEFT \<Rightarrow> ''left'' | CENTER \<Rightarrow> ''center'' | RIGHT \<Rightarrow> ''right'')"

definition inches_to_points :: "real \<Rightarrow> real" where
  "inches_to_points inches = inches * 72"

section \<open>Text in the renderer (\<open>renderers/reportlab_renderer.py\<close>)\<close>

text \<open>Of the renderer object the text methods read \<open>self._canvas\<close>, which is \<open>None\<close>
  until \<open>create_canvas\<close> has run.\<close>

record ReportLabRenderer =
  self_canvas :: "Canvas option"

definition py_lower_char :: "char \<Rightarrow> char" where
  \<comment> \<open>\<open>str.lower\<close> on a code point below 256\<close>
  "py_lower_char ch =
     (let n = (of_char ch :: nat) in
      if (65 \<le> n \<and> n \<le> 90) \<or> (192 \<le> n \<and> n \<le> 222 \<and> n \<noteq> 215) then char_of (n + 32)
      else ch)"

definition py_lower :: "string \<Rightarrow> string" where
  "py_lower s = map py_lower_char s"

definition family_map :: "(string \<times> string) list" where
  "family_map =
     [(''helvetica'', ''Helvetica''), (''times'', ''Times-Roman''), (''courier'', ''Courier'')]"

definition get_font_name :: "string \<Rightarrow> string \<Rightarrow> string" where
  "get_font_name family style =
     (let base_font = (case map_of family_map (py_lower family) of Some f \<Rightarrow> f | None \<Rightarrow> family)
      in if style = ''bold'' then
           (if base_font = ''Times-Roman'' then ''Times-Bold'' else base_font @ ''-Bold'')
         else if style = ''italic'' then
           (if base_font = ''Times-Roman'' then ''Times-Italic''
            else if base_font = ''Helvetica'' then ''Helvetica-Oblique''
            else base_font @ ''-Italic'')
         else if style = ''bold_italic'' then
           (if base_font = ''Times-Roman'' then ''Times-BoldItalic''
            else if base_font = ''Helvetica'' then ''Helvetica-BoldOblique''
            else base_font @ ''-BoldItalic'')
         else base_font)"

text \<open>The loop of \<open>_handle_text_overflow\<close>: drop the last character while the text is
  wider than the room left of the ellipsis.\<close>

function truncate_loop :: "Canvas \<Rightarrow> string \<Rightarrow> int \<Rightarrow> real \<Rightarrow> string \<Rightarrow> string" where
  "truncate_loop c font_name font_size available_width truncated =
     (if stringWidth c truncated font_name font_size > available_width \<and> length truncated > 0
      then truncate_loop c font_name font_size available_width (butlast truncated)
      else truncated)"
  by pat_completeness auto
termination
  by (relation "measure (\<lambda>(c, font_name, font_size, available_width, truncated).
        length truncated)") auto

definition handle_text_overflow ::
  "ReportLabRenderer \<Rightarrow> string \<Rightarrow> string \<Rightarrow> int \<Rightarrow> real \<Rightarrow> string" where
  "handle_text_overflow self content font_name font_size max_width =
     (case self_canvas self of
        None \<Rightarrow> content
      | Some c \<Rightarrow>
          if stringWidth c content font_name font_size \<le> max_width then content
          else
            (let ellipsis = ''...'';
                 ellipsis_width = stringWidth c ellipsis font_name font_size;
                 available_width = max_width - ellipsis_width;
                 truncated = truncate_loop c font_name font_size available_width content
             in py_rstrip truncated @ ellipsis))"

definition select_auto_strategy :: "TextElement \<Rightarrow> OverflowStrategy" where
  "select_auto_strategy t =
     (let text_length = length (text_content t);
          has_height = (text_width t \<noteq> None)
      in if text_length < 30 then SHRINK
         else if text_length \<ge> 30 \<and> has_height then WRAP
         else SHRINK)"

definition apply_shrink_strategy ::
  "ReportLabRenderer \<Rightarrow> TextElement \<Rightarrow> Panel \<Rightarrow> render_exn + (int \<times> string)" where
  "apply_shrink_strategy self t panel =
     (case (self_canvas self, text_width t) of
        (Some c, Some width) \<Rightarrow>
          (let font_name = get_font_name (text_font_family t) (FontStyle_value (text_font_style t));
               max_width_pts = inches_to_points width
           in case shrink_to_fit c (text_content t) font_name (text_font_size t) max_width_pts
                     (text_min_font_size t) of
                Inl e \<Rightarrow> Inl e
              | Inr final_size \<Rightarrow>
                  if final_size = text_min_font_size t then
                    (case measure_text c (text_content t) font_name final_size max_width_pts
                            None None of
                       Inl e \<Rightarrow> Inl e
                     | Inr metrics \<Rightarrow>
                         if \<not> fits_within_bounds metrics then
                           Inr (final_size,
                                handle_text_overflow self (text_content t) font_name final_size
                                  max_width_pts)
                         else Inr (final_size, text_content t))
                  else Inr (final_size, text_content t))
      | _ \<Rightarrow> Inr (text_font_size t, text_content t))"

text \<open>The binary search of \<open>_apply_wrap_strategy\<close>, which wraps again at every size it
  tries.\<close>

function wrap_search ::
  "Canvas \<Rightarrow> string \<Rightarrow> string \<Rightarrow> real \<Rightarrow> real \<Rightarrow> int option \<Rightarrow> int \<Rightarrow> int \<Rightarrow> int \<Rightarrow> string list \<Rightarrow>
   render_exn + (int \<times> string list)" where
  "wrap_search c content font_name max_width_pts max_height_pts max_lines low high
       best_size best_lines =
     (if low \<le> high then
        (let mid = (low + high) div 2;
             test_lines = wrap_text c content font_name mid max_width_pts max_lines
         in case measure_text c content font_name mid max_width_pts (Some max_height_pts)
                   (Some test_lines) of
              Inl e \<Rightarrow> Inl e
            | Inr test_metrics \<Rightarrow>
                if fits_within_bounds test_metrics
                then wrap_search c content font_name max_width_pts max_height_pts max_lines
                       (mid + 1) high mid test_lines
                else wrap_search c content font_name max_width_pts max_height_pts max_lines
                       low (mid - 1) best_size best_lines)
      else Inr (best_size, best_lines))"
  by pat_completeness auto
termination
  by (relation "measure (\<lambda>(c, content, font_name, max_width_pts, max_height_pts, max_lines,
        low, high, best_size, best_lines). nat (high - low + 1))") auto

definition apply_wrap_strategy ::
  "ReportLabRenderer \<Rightarrow> TextElement \<Rightarrow> Panel \<Rightarrow> render_exn + (int \<times> string list)" where
  "apply_wrap_strategy self t panel =
     (case (self_canvas self, text_width t) of
        (Some c, Some width) \<Rightarrow>
          (let font_name = get_font_name (text_font_family t) (FontStyle_value (text_font_style t));
               max_width_pts = inches_to_points width;
               font_size = text_font_size t;
               lines = wrap_text c (text_content t) font_name font_size max_width_pts
                         (text_max_lines t)
           in if width \<noteq> 0 \<and> panel_height panel \<noteq> 0 \<and> inches_to_points (panel_height panel) \<noteq> 0
              then
                (let max_height_pts = inches_to_points (panel_height panel) in
                 case measure_text c (text_content t) font_name font_size max_width_pts
                        (Some max_height_pts) (Some lines) of
                   Inl e \<Rightarrow> Inl e
                 | Inr metrics \<Rightarrow>
                     if \<not> fits_within_bounds metrics \<and> font_size > text_min_font_size t
                     then wrap_search c (text_content t) font_name max_width_pts max_height_pts
                            (text_max_lines t) (text_min_font_size t) font_size
                            (text_min_font_size t) lines
                     else Inr (font_size, lines))
              else Inr (font_size, lines))
      | _ \<Rightarrow> Inr (text_font_size t, [text_content t]))"

definition apply_truncate_strategy ::
  "ReportLabRenderer \<Rightarrow> TextElement \<Rightarrow> Panel \<Rightarrow> int \<times> string" where
  "apply_truncate_strategy self t panel =
     (case (self_canvas self, text_width t) of
        (Some c, Some width) \<Rightarrow>
          (let font_name = get_font_name (text_font_family t) (FontStyle_value (text_font_style t));
               max_width_pts = inches_to_points width
           in (text_font_size t,
               handle_text_overflow self (text_content t) font_name (text_font_size t)
                 max_width_pts))
      | _ \<Rightarrow> (text_font_size t, text_content t))"

definition endswith :: "string \<Rightarrow> string \<Rightarrow> bool" where
  "endswith s e = (length e \<le> length s \<and> drop (length s - length e) s = e)"

definition fit_text_element ::
  "ReportLabRenderer \<Rightarrow> TextElement \<Rightarrow> Panel \<Rightarrow>
   render_exn + (int \<times> string list \<times> AdjustmentResult)" where
  "fit_text_element self t panel =
     (let strategy = (if text_overflow_strategy t = AUTO then select_auto_strategy t
                      else text_overflow_strategy t);
          original_font_size = text_font_size t;
          fitted =
            (if strategy = SHRINK then
               (case apply_shrink_strategy self t panel of
                  Inl e \<Rightarrow> Inl e
                | Inr (final_size, content) \<Rightarrow>
                    Inr (final_size, [content],
                         content \<noteq> text_content t \<and> endswith content ''...''))
             else if strategy = WRAP then
               (case apply_wrap_strategy self t panel of
                  Inl e \<Rightarrow> Inl e
                | Inr (final_size, lines) \<Rightarrow> Inr (final_size, lines, False))
             else if strategy = TRUNCATE then
               (case apply_truncate_strategy self t panel of
                  (final_size, content) \<Rightarrow>
                    Inr (final_size, [content], content \<noteq> text_content t))
             else Inr (text_font_size t, [text_content t], False))
      in case fitted of
           Inl e \<Rightarrow> Inl e
         | Inr (final_size, lines, truncated) \<Rightarrow>
             (let adjusted = (final_size \<noteq> original_font_size \<or> truncated \<or> length lines > 1)
              in case AdjustmentResult_new adjusted strategy original_font_size final_size
                        (int (length lines)) truncated of
                   Inl e \<Rightarrow> Inl e
                 | Inr result \<Rightarrow> Inr (final_size, lines, result)))"

text \<open>The drawing loop of \<open>render_text\<close>: line \<open>i\<close> is drawn \<open>i\<close> line heights below the
  first.\<close>

fun draw_lines ::
  "string \<Rightarrow> real \<Rightarrow> real \<Rightarrow> real \<Rightarrow> nat \<Rightarrow> string list \<Rightarrow> canvas_op list" where
  "draw_lines alignment abs_x abs_y line_height i [] = []"
| "draw_lines alignment abs_x abs_y line_height i (line # rest) =
     (let line_y = abs_y - real i * line_height;
          op = (if alignment = ''center'' then DrawCentredString abs_x line_y line
                else if alignment = ''right'' then DrawRightString abs_x line_y line
                else DrawString abs_x line_y line)
      in op # draw_lines alignment abs_x abs_y line_height (Suc i) rest)"

text \<open>
  \<open>render_text\<close> returns nothing; what it changes is the canvas of the renderer and the
  text element it is given, so the model returns both. \<open>if text.width:\<close> is a test for
  truth: it fails for \<open>None\<close> and for \<open>0.0\<close>. The local \<open>final_font_size\<close> is written
  \<open>final_size\<close>, the former being a field of \<open>AdjustmentResult\<close>.
\<close>

definition render_text ::
  "ReportLabRenderer \<Rightarrow> TextElement \<Rightarrow> Panel \<Rightarrow> render_exn + (ReportLabRenderer \<times> TextElement)" where
  "render_text self t panel =
     (case self_canvas self of
        None \<Rightarrow> Inl RuntimeError
      | Some c \<Rightarrow>
          (let abs_x = inches_to_points (panel_x panel + text_x t);
               abs_y = inches_to_points (panel_y panel + text_y t);
               font_name = get_font_name (text_font_family t) (FontStyle_value (text_font_style t));
               fitted =
                 (if text_width t \<noteq> None \<and> text_width t \<noteq> Some 0 then
                    (case fit_text_element self t panel of
                       Inl e \<Rightarrow> Inl e
                     | Inr (final_size, lines, adjustment_result) \<Rightarrow>
                         Inr (final_size, lines, set_adjustment_result t adjustment_result))
                  else Inr (text_font_size t, [text_content t], t))
           in case fitted of
                Inl e \<Rightarrow> Inl e
              | Inr (final_size, lines, t') \<Rightarrow>
                  (let set_font = SetFont font_name final_size;
                       set_color =
                         (case text_color t' of
                            Some col \<Rightarrow> SetFillColorRGB (color_r col) (color_g col) (color_b col)
                          | None \<Rightarrow> SetFillColorRGB 0 0 0);
                       alignment = TextAlignment_value (text_alignment t');
                       line_height = calculate_line_height final_size;
                       drawn = draw_lines alignment abs_x abs_y line_height 0 lines;
                       c' = c\<lparr>ops := ops c @ [set_font, set_color] @ drawn\<rparr>
                   in Inr (self\<lparr>self_canvas := Some c'\<rparr>, t'))))"

section \<open>Example inputs\<close>

text \<open>A canvas with the metrics of Courier, in which every glyph is 600/1000 of the font
  size wide.\<close>

definition courier_width :: "string \<Rightarrow> string \<Rightarrow> int \<Rightarrow> real" where
  "courier_width s font_name font_size = real (length s) * (600 / 1000) * real_of_int font_size"

definition courier_canvas :: Canvas where
  "courier_canvas = \<lparr>stringWidth = courier_width, ops = []\<rparr>"

definition courier_renderer :: ReportLabRenderer where
  "courier_renderer = \<lparr>self_canvas = Some courier_canvas\<rparr>"

definition example_panel :: Panel where
  "example_panel = \<lparr>panel_x = 0, panel_y = 0, panel_width = 4, panel_height = 5\<rparr>"

definition example_text :: TextElement where
  "example_text =
     \<lparr>text_id = ''greeting'', text_content = ''Merry Christmas and a happy new year to you'',
      text_x = 1, text_y = 1, text_width = Some 1, text_font_family = ''Courier'',
      text_font_size = 12, text_font_style = NORMAL, text_color = None, text_alignment = LEFT,
      text_rotation = 0, text_z_index = 100, text_overflow_strategy = WRAP,
      text_max_lines = Some 2, text_min_font_size = 8, text_adjustment_applied = None\<rparr>"

lemma courier_width_mono:
  "a \<le> b \<Longrightarrow> stringWidth courier_canvas s f a \<le> stringWidth courier_canvas s f b"
proof -
  assume "a \<le> b"
  then have "real_of_int a \<le> real_of_int b" by simp
  then have "real (length s) * (600 / 1000) * real_of_int a
      \<le> real (length s) * (600 / 1000) * real_of_int b"
    by (intro mult_left_mono) simp_all
  then show ?thesis by (simp add: courier_canvas_def courier_width_def)
qed

section \<open>\<open>shrink_to_fit\<close>\<close>

lemma measure_text_single:
  "measure_text c content f sz mw None None =
     (if 0 \<le> stringWidth c content f sz \<and> 0 \<le> sz
      then Inr \<lparr>width_pts = stringWidth c content f sz, height_pts = calculate_line_height sz,
                line_count = 1, fits_within_bounds = (stringWidth c content f sz \<le> mw)\<rparr>
      else Inl ValidationError)"
  by (simp add: measure_text_def TextMetrics_new_def calculate_line_height_def zero_le_mult_iff Let_def)

lemma shrink_loop_spec:
  assumes ok: "\<And>s. low \<le> s \<Longrightarrow> s \<le> high \<Longrightarrow> 0 \<le> stringWidth c content f s \<and> 0 \<le> s"
      and anti: "\<And>a b. a \<le> b \<Longrightarrow> stringWidth c content f b \<le> mw \<Longrightarrow> stringWidth c content f a \<le> mw"
  shows "\<exists>r. shrink_loop c content f mw low high best = Inr r \<and>
           (if \<exists>s. low \<le> s \<and> s \<le> high \<and> stringWidth c content f s \<le> mw
            then low \<le> r \<and> r \<le> high \<and> stringWidth c content f r \<le> mw \<and>
                 (\<forall>s. r < s \<and> s \<le> high \<longrightarrow> \<not> stringWidth c content f s \<le> mw)
            else r = best)"
  using ok anti
proof (induction c content f mw low high best rule: shrink_loop.induct)
  case (1 c content f mw low high best)
  note ok = "1.prems"(1) and anti = "1.prems"(2)
  let ?fits = "\<lambda>s. stringWidth c content f s \<le> mw"
  show ?case
  proof (cases "low \<le> high")
    case False
    then show ?thesis by (subst shrink_loop.simps) auto
  next
    case True
    define mid where "mid = (low + high) div 2"
    have mid: "low \<le> mid" "mid \<le> high" using True by (auto simp: mid_def)
    have okm: "0 \<le> stringWidth c content f mid \<and> 0 \<le> mid" using ok mid by blast
    have mt: "measure_text c content f mid mw None None =
        Inr \<lparr>width_pts = stringWidth c content f mid, height_pts = calculate_line_height mid,
                line_count = 1, fits_within_bounds = ?fits mid\<rparr>"
      using okm by (simp add: measure_text_single)
    show ?thesis
    proof (cases "?fits mid")
      case fits: True
      have eq: "shrink_loop c content f mw low high best = shrink_loop c content f mw (mid + 1) high mid"
        using True fits mt by (subst shrink_loop.simps) (simp add: mid_def Let_def)
      have "\<exists>r. shrink_loop c content f mw (mid + 1) high mid = Inr r \<and>
           (if \<exists>s. mid + 1 \<le> s \<and> s \<le> high \<and> ?fits s
            then mid + 1 \<le> r \<and> r \<le> high \<and> ?fits r \<and>
                 (\<forall>s. r < s \<and> s \<le> high \<longrightarrow> \<not> ?fits s)
            else r = mid)"
      proof (rule "1.IH"(1)[OF True mid_def mt])
        show "fits_within_bounds \<lparr>width_pts = stringWidth c content f mid, height_pts = calculate_line_height mid,
                line_count = 1, fits_within_bounds = ?fits mid\<rparr>" using fits by simp
        fix s assume "mid + 1 \<le> s" "s \<le> high"
        then show "0 \<le> stringWidth c content f s \<and> 0 \<le> s" using ok[of s] mid by auto
      next
        fix a b :: int assume "a \<le> b" "?fits b"
        then show "?fits a" by (rule anti)
      qed
      then obtain r where r: "shrink_loop c content f mw (mid + 1) high mid = Inr r"
        and rs: "(if \<exists>s. mid + 1 \<le> s \<and> s \<le> high \<and> ?fits s
            then mid + 1 \<le> r \<and> r \<le> high \<and> ?fits r \<and>
                 (\<forall>s. r < s \<and> s \<le> high \<longrightarrow> \<not> ?fits s)
            else r = mid)" by blast
      have ex: "\<exists>s. low \<le> s \<and> s \<le> high \<and> ?fits s" using fits mid by blast
      show ?thesis
      proof (cases "\<exists>s. mid + 1 \<le> s \<and> s \<le> high \<and> ?fits s")
        case True
        with rs have "mid + 1 \<le> r \<and> r \<le> high \<and> ?fits r \<and>
                 (\<forall>s. r < s \<and> s \<le> high \<longrightarrow> \<not> ?fits s)" by simp
        with ex mid eq r show ?thesis by auto
      next
        case False
        with rs have "r = mid" by simp
        moreover from False have "\<forall>s. mid < s \<and> s \<le> high \<longrightarrow> \<not> ?fits s" by auto
        ultimately show ?thesis using ex mid eq r fits by auto
      qed
    next
      case nofit: False
      have eq: "shrink_loop c content f mw low high best = shrink_loop c content f mw low (mid - 1) best"
        using True nofit mt by (subst shrink_loop.simps) (simp add: mid_def Let_def)
      have "\<exists>r. shrink_loop c content f mw low (mid - 1) best = Inr r \<and>
           (if \<exists>s. low \<le> s \<and> s \<le> mid - 1 \<and> ?fits s
            then low \<le> r \<and> r \<le> mid - 1 \<and> ?fits r \<and>
                 (\<forall>s. r < s \<and> s \<le> mid - 1 \<longrightarrow> \<not> ?fits s)
            else r = best)"
      proof (rule "1.IH"(2)[OF True mid_def mt])
        show "\<not> fits_within_bounds \<lparr>width_pts = stringWidth c content f mid, height_pts = calculate_line_height mid,
                line_count = 1, fits_within_bounds = ?fits mid\<rparr>" using nofit by simp
        fix s assume "low \<le> s" "s \<le> mid - 1"
        then show "0 \<le> stringWidth c content f s \<and> 0 \<le> s" using ok[of s] mid by auto
      next
        fix a b :: int assume "a \<le> b" "?fits b"
        then show "?fits a" by (rule anti)
      qed
      then obtain r where r: "shrink_loop c content f mw low (mid - 1) best = Inr r"
        and rs: "(if \<exists>s. low \<le> s \<and> s \<le> mid - 1 \<and> ?fits s
            then low \<le> r \<and> r \<le> mid - 1 \<and> ?fits r \<and>
                 (\<forall>s. r < s \<and> s \<le> mid - 1 \<longrightarrow> \<not> ?fits s)
            else r = best)" by blast
      have above: "\<not> ?fits s" if "mid \<le> s" for s
      proof
        assume "?fits s"
        with that have "?fits mid" by (rule anti)
        with nofit show False by simp
      qed
      show ?thesis
      proof (cases "\<exists>s. low \<le> s \<and> s \<le> mid - 1 \<and> ?fits s")
        case True
        with rs have rr: "low \<le> r \<and> r \<le> mid - 1 \<and> ?fits r \<and>
                 (\<forall>s. r < s \<and> s \<le> mid - 1 \<longrightarrow> \<not> ?fits s)" by simp
        have "\<forall>s. r < s \<and> s \<le> high \<longrightarrow> \<not> ?fits s"
        proof (intro allI impI)
          fix s assume "r < s \<and> s \<le> high"
          then show "\<not> ?fits s" using rr above[of s] by (cases "s \<le> mid - 1") auto
        qed
        moreover have "\<exists>s. low \<le> s \<and> s \<le> high \<and> ?fits s" using True mid by force
        ultimately show ?thesis using rr mid eq r by auto
      next
        case False
        with rs have "r = best" by simp
        moreover have "\<not> (\<exists>s. low \<le> s \<and> s \<le> high \<and> ?fits s)"
        proof
          assume "\<exists>s. low \<le> s \<and> s \<le> high \<and> ?fits s"
          then obtain s where s: "low \<le> s" "s \<le> high" "?fits s" by blast
          show False using False s above[of s] by (cases "s \<le> mid - 1") auto
        qed
        ultimately show ?thesis using eq r by auto
      qed
    qed
  qed
qed

lemma shrink_to_fit_spec:
  assumes mono: "\<forall>a b. a \<le> b \<longrightarrow> stringWidth c content f a \<le> stringWidth c content f b"
      and nonneg: "0 \<le> stringWidth c content f min_size"
      and min0: "0 \<le> min_size"
  shows "\<exists>r. shrink_to_fit c content f init mw min_size = Inr r \<and>
           (if \<exists>s. min_size \<le> s \<and> s \<le> init \<and> stringWidth c content f s \<le> mw
            then min_size \<le> r \<and> r \<le> init \<and> stringWidth c content f r \<le> mw \<and>
                 (\<forall>s. r < s \<and> s \<le> init \<longrightarrow> \<not> stringWidth c content f s \<le> mw)
            else r = min_size)"
  unfolding shrink_to_fit_def
proof (rule shrink_loop_spec)
  fix s assume "min_size \<le> s" "s \<le> init"
  with mono nonneg min0 show "0 \<le> stringWidth c content f s \<and> 0 \<le> s"
    by (meson order_trans)
next
  fix a b :: int assume "a \<le> b" "stringWidth c content f b \<le> mw"
  with mono show "stringWidth c content f a \<le> mw" by (meson order_trans)
qed

text \<open>
  Claim C4, as the code has it: for a width measure that is monotone in the font size and
  not negative at \<open>min_size\<close>, and \<open>min_size\<close> not negative, \<open>shrink_to_fit\<close> returns a
  size; the size returned for the larger \<open>max_width\<close> is not smaller; it is at least
  \<open>min_size\<close>, and at most \<open>initial_size\<close> when \<open>min_size \<le> initial_size\<close>.
\<close>

theorem shrink_to_fit_monotone_and_bounded:
  assumes mono: "\<forall>a b. a \<le> b \<longrightarrow> stringWidth c content f a \<le> stringWidth c content f b"
      and nonneg: "0 \<le> stringWidth c content f min_size"
      and min0: "0 \<le> min_size"
      and le: "w1 \<le> w2"
  shows "\<exists>r1 r2. shrink_to_fit c content f initial_size w1 min_size = Inr r1 \<and>
           shrink_to_fit c content f initial_size w2 min_size = Inr r2 \<and>
           r1 \<le> r2 \<and> min_size \<le> r1 \<and> min_size \<le> r2 \<and>
           (min_size \<le> initial_size \<longrightarrow> r1 \<le> initial_size \<and> r2 \<le> initial_size)"
proof -
  let ?fits = "\<lambda>mw s. stringWidth c content f s \<le> mw"
  let ?in = "\<lambda>mw. \<exists>s. min_size \<le> s \<and> s \<le> initial_size \<and> ?fits mw s"
  from shrink_to_fit_spec [OF mono nonneg min0, of initial_size w1]
  obtain r1 where r1: "shrink_to_fit c content f initial_size w1 min_size = Inr r1"
    and s1: "if ?in w1
             then min_size \<le> r1 \<and> r1 \<le> initial_size \<and> ?fits w1 r1 \<and>
                  (\<forall>s. r1 < s \<and> s \<le> initial_size \<longrightarrow> \<not> ?fits w1 s)
             else r1 = min_size" by blast
  from shrink_to_fit_spec [OF mono nonneg min0, of initial_size w2]
  obtain r2 where r2: "shrink_to_fit c content f initial_size w2 min_size = Inr r2"
    and s2: "if ?in w2
             then min_size \<le> r2 \<and> r2 \<le> initial_size \<and> ?fits w2 r2 \<and>
                  (\<forall>s. r2 < s \<and> s \<le> initial_size \<longrightarrow> \<not> ?fits w2 s)
             else r2 = min_size" by blast
  have lo1: "min_size \<le> r1" using s1 by (auto split: if_splits)
  have lo2: "min_size \<le> r2" using s2 by (auto split: if_splits)
  have hi1: "r1 \<le> initial_size" if "min_size \<le> initial_size"
    using s1 that by (auto split: if_splits)
  have hi2: "r2 \<le> initial_size" if "min_size \<le> initial_size"
    using s2 that by (auto split: if_splits)
  have "r1 \<le> r2"
  proof (cases "?in w1")
    case False
    with s1 have "r1 = min_size" by simp
    with lo2 show ?thesis by simp
  next
    case True
    with s1 have a: "min_size \<le> r1" "r1 \<le> initial_size" "?fits w1 r1" by simp_all
    from a(3) le have f2: "?fits w2 r1" by simp
    with a have in2: "?in w2" by blast
    with s2 have b: "\<forall>s. r2 < s \<and> s \<le> initial_size \<longrightarrow> \<not> ?fits w2 s" by simp
    show ?thesis
    proof (rule ccontr)
      assume "\<not> r1 \<le> r2"
      then have "r2 < r1" by simp
      with b a(2) have "\<not> ?fits w2 r1" by blast
      with f2 show False by simp
    qed
  qed
  with r1 r2 lo1 lo2 hi1 hi2 show ?thesis by blast
qed

theorem shrink_to_fit_monotone_and_bounded_witness:
  "shrink_to_fit courier_canvas ''Hello World'' ''Courier'' 36 100 8 = Inr 15 \<and>
   shrink_to_fit courier_canvas ''Hello World'' ''Courier'' 36 200 8 = Inr 30"
proof -
  have mono: "\<forall>a b. a \<le> b \<longrightarrow>
      stringWidth courier_canvas ''Hello World'' ''Courier'' a
        \<le> stringWidth courier_canvas ''Hello World'' ''Courier'' b"
    by (simp add: courier_width_mono)
  have nonneg: "0 \<le> stringWidth courier_canvas ''Hello World'' ''Courier'' 8"
    by (simp add: courier_canvas_def courier_width_def)
  have min0: "(0::int) \<le> 8" by simp
  have le: "(100::real) \<le> 200" by simp
  from shrink_to_fit_monotone_and_bounded [OF mono nonneg min0 le, of 36]
  obtain r1 r2 where
    r1: "shrink_to_fit courier_canvas ''Hello World'' ''Courier'' 36 100 8 = Inr r1" and
    r2: "shrink_to_fit courier_canvas ''Hello World'' ''Courier'' 36 200 8 = Inr r2" and
    b: "r1 \<le> r2" "8 \<le> r1" "r1 \<le> 36" "r2 \<le> 36"
    by auto
  have e1: "shrink_to_fit courier_canvas ''Hello World'' ''Courier'' 36 100 8 = Inr 15"
    by code_simp
  have e2: "shrink_to_fit courier_canvas ''Hello World'' ''Courier'' 36 200 8 = Inr 30"
    by code_simp
  from r1 r2 e1 e2 b show ?thesis by simp
qed

text \<open>
  Claim C4 as stated fails where \<open>min_size\<close> is above \<open>initial_size\<close>, which a text element
  with \<open>font_size = 6\<close> and the default \<open>min_font_size = 8\<close> has: the loop does not run and
  the size returned is \<open>min_size\<close>, above the initial size.
\<close>

theorem shrink_to_fit_range_counterexample:
  "shrink_to_fit courier_canvas ''Hello World'' ''Courier'' 6 100 8 = Inr 8 \<and> \<not> (8::int) \<le> 6"
  by code_simp

section \<open>\<open>wrap_text\<close>\<close>

text \<open>A word, as \<open>split\<close> returns it: not empty and free of white space.\<close>

definition clean_word :: "string \<Rightarrow> bool" where
  "clean_word w = (w \<noteq> [] \<and> (\<forall>ch \<in> set w. \<not> py_isspace ch))"

lemma split_ws_clean:
  "cur = [] \<or> clean_word cur \<Longrightarrow> w \<in> set (split_ws cur s) \<Longrightarrow> clean_word w"
proof (induction s arbitrary: cur)
  case Nil
  then show ?case by (auto split: if_splits)
next
  case (Cons ch s)
  show ?case
  proof (cases "py_isspace ch")
    case True
    with Cons.prems have "w = cur \<and> clean_word cur \<or> w \<in> set (split_ws [] s)"
      by (auto split: if_splits)
    then show ?thesis using Cons.IH[of "[]"] by auto
  next
    case False
    with Cons.prems have "clean_word (cur @ [ch])" by (auto simp: clean_word_def)
    moreover from False Cons.prems have "w \<in> set (split_ws (cur @ [ch]) s)" by simp
    ultimately show ?thesis using Cons.IH[of "cur @ [ch]"] by blast
  qed
qed

lemma py_split_clean: "w \<in> set (py_split s) \<Longrightarrow> clean_word w"
  unfolding py_split_def by (rule split_ws_clean[of "[]"]) simp_all

lemma split_ws_nonspace:
  "\<forall>ch \<in> set w. \<not> py_isspace ch \<Longrightarrow> split_ws cur (w @ rest) = split_ws (cur @ w) rest"
  by (induction w arbitrary: cur) simp_all

lemma split_ws_join:
  "\<forall>w \<in> set ws. clean_word w \<Longrightarrow> split_ws [] (join_space ws) = ws"
proof (induction ws rule: join_space.induct)
  case 1
  then show ?case by simp
next
  case (2 w)
  then have "split_ws [] (w @ []) = split_ws ([] @ w) []"
    by (intro split_ws_nonspace) (simp add: clean_word_def)
  with 2 show ?case by (simp add: clean_word_def)
next
  case (3 w v ws)
  have sp: "py_isspace (CHR '' '')" by (simp add: py_isspace_def)
  from 3 have w: "clean_word w" by simp
  then have "split_ws [] (w @ CHR '' '' # join_space (v # ws))
      = split_ws ([] @ w) (CHR '' '' # join_space (v # ws))"
    by (intro split_ws_nonspace) (simp add: clean_word_def)
  also have "\<dots> = w # split_ws [] (join_space (v # ws))"
    using w sp by (simp add: clean_word_def)
  also have "\<dots> = w # v # ws" using 3 by simp
  finally show ?case by simp
qed

lemma py_split_join: "\<forall>w \<in> set ws. clean_word w \<Longrightarrow> py_split (join_space ws) = ws"
  by (simp add: py_split_def split_ws_join)

lemma py_split_word: "clean_word w \<Longrightarrow> py_split w = [w]"
  using py_split_join[of "[w]"] by simp

text \<open>
  Two invariants of the loop. Every line closed so far is within \<open>max_width\<close> or is one
  of the words, and the line being filled is within \<open>max_width\<close> or a single word. The
  words of the closed lines, then those of the line being filled, then the words not yet
  read are the words of the content; words are left unread only after \<open>break\<close>.
\<close>

lemma wrap_loop_widths:
  assumes "wrap_loop c f sz mw ml ws lines cur = (lines', cur')"
      and "\<forall>l \<in> set lines. stringWidth c l f sz \<le> mw \<or> l \<in> A"
      and "set ws \<subseteq> A"
      and "cur = [] \<or> stringWidth c (join_space cur) f sz \<le> mw \<or> (\<exists>w \<in> A. cur = [w])"
  shows "(\<forall>l \<in> set lines'. stringWidth c l f sz \<le> mw \<or> l \<in> A) \<and>
         (cur' = [] \<or> stringWidth c (join_space cur') f sz \<le> mw \<or> (\<exists>w \<in> A. cur' = [w]))"
  using assms
proof (induction ws arbitrary: lines cur)
  case Nil
  then show ?case by simp
next
  case (Cons word ws)
  let ?P = "\<lambda>l. stringWidth c l f sz \<le> mw \<or> l \<in> A"
  let ?Q = "\<lambda>cur. cur = [] \<or> stringWidth c (join_space cur) f sz \<le> mw \<or> (\<exists>w \<in> A. cur = [w])"
  define l1 where "l1 = (if stringWidth c (join_space (cur @ [word])) f sz \<le> mw then lines
       else if cur \<noteq> [] then lines @ [join_space cur] else lines @ [word])"
  define c1 where "c1 = (if stringWidth c (join_space (cur @ [word])) f sz \<le> mw then cur @ [word]
       else if cur \<noteq> [] then [word] else cur)"
  have wA: "word \<in> A" and wsA: "set ws \<subseteq> A" using Cons.prems(3) by auto
  have P1: "\<forall>l \<in> set l1. ?P l"
    using Cons.prems(2,4) wA unfolding l1_def by auto
  have Q1: "?Q c1"
    using Cons.prems(4) wA unfolding c1_def by auto
  have step: "wrap_loop c f sz mw ml (word # ws) lines cur =
      (case limit_of ml of
         None \<Rightarrow> wrap_loop c f sz mw ml ws l1 c1
       | Some n \<Rightarrow> if int (length l1) \<ge> n then (l1, c1) else wrap_loop c f sz mw ml ws l1 c1)"
    unfolding l1_def c1_def by (cases "cur = []"; cases "limit_of ml") (simp_all add: Let_def)
  show ?case
  proof (cases "\<exists>n. limit_of ml = Some n \<and> n \<le> int (length l1)")
    case True
    with step Cons.prems(1) have "lines' = l1" "cur' = c1" by auto
    with P1 Q1 show ?thesis by simp
  next
    case False
    with step Cons.prems(1) have "wrap_loop c f sz mw ml ws l1 c1 = (lines', cur')"
      by (auto split: option.splits if_splits)
    from Cons.IH[OF this P1 wsA Q1] show ?thesis .
  qed
qed

lemma wrap_loop_words:
  assumes "wrap_loop c f sz mw ml ws lines cur = (lines', cur')"
      and "\<forall>w \<in> set ws \<union> set cur. clean_word w"
  shows "\<exists>rest. concat (map py_split lines') @ cur' @ rest = concat (map py_split lines) @ cur @ ws \<and>
           (\<forall>w \<in> set cur'. clean_word w) \<and>
           (rest \<noteq> [] \<longrightarrow> (\<exists>n. limit_of ml = Some n \<and> n \<le> int (length lines')))"
  using assms
proof (induction ws arbitrary: lines cur)
  case Nil
  then show ?case by simp
next
  case (Cons word ws)
  define l1 where "l1 = (if stringWidth c (join_space (cur @ [word])) f sz \<le> mw then lines
       else if cur \<noteq> [] then lines @ [join_space cur] else lines @ [word])"
  define c1 where "c1 = (if stringWidth c (join_space (cur @ [word])) f sz \<le> mw then cur @ [word]
       else if cur \<noteq> [] then [word] else cur)"
  have cw: "clean_word word" and cws: "\<forall>w \<in> set ws. clean_word w" and ccur: "\<forall>w \<in> set cur. clean_word w"
    using Cons.prems(2) by auto
  have jc: "py_split (join_space cur) = cur" using ccur by (simp add: py_split_join)
  have jw: "py_split word = [word]" using cw by (simp add: py_split_word)
  have inv: "concat (map py_split l1) @ c1 = concat (map py_split lines) @ cur @ [word]"
    unfolding l1_def c1_def using jc jw by auto
  have cc1: "\<forall>w \<in> set ws \<union> set c1. clean_word w"
    using cw cws ccur unfolding c1_def by auto
  have step: "wrap_loop c f sz mw ml (word # ws) lines cur =
      (case limit_of ml of
         None \<Rightarrow> wrap_loop c f sz mw ml ws l1 c1
       | Some n \<Rightarrow> if int (length l1) \<ge> n then (l1, c1) else wrap_loop c f sz mw ml ws l1 c1)"
    unfolding l1_def c1_def by (cases "cur = []"; cases "limit_of ml") (simp_all add: Let_def)
  show ?case
  proof (cases "\<exists>n. limit_of ml = Some n \<and> n \<le> int (length l1)")
    case True
    with step Cons.prems(1) have eq: "lines' = l1" "cur' = c1" by auto
    have "concat (map py_split lines') @ cur' @ ws = concat (map py_split lines) @ cur @ word # ws"
      using inv eq by (metis append.assoc append_Cons append_Nil)
    moreover have "\<forall>w \<in> set cur'. clean_word w" using cc1 eq by auto
    moreover have "ws \<noteq> [] \<longrightarrow> (\<exists>n. limit_of ml = Some n \<and> n \<le> int (length lines'))"
      using True eq by simp
    ultimately show ?thesis by blast
  next
    case False
    with step Cons.prems(1) have "wrap_loop c f sz mw ml ws l1 c1 = (lines', cur')"
      by (auto split: option.splits if_splits)
    from Cons.IH[OF this cc1] obtain rest where
      r: "concat (map py_split lines') @ cur' @ rest = concat (map py_split l1) @ c1 @ ws"
      "\<forall>w \<in> set cur'. clean_word w"
      "rest \<noteq> [] \<longrightarrow> (\<exists>n. limit_of ml = Some n \<and> n \<le> int (length lines'))" by blast
    have "concat (map py_split l1) @ c1 @ ws = concat (map py_split lines) @ cur @ word # ws"
      using inv by (metis append.assoc append_Cons append_Nil)
    with r show ?thesis by metis
  qed
qed

lemma prefix_concat_take: "prefix (concat (map g (take k xs))) (concat (map g xs))"
proof -
  have "concat (map g xs) = concat (map g (take k xs)) @ concat (map g (drop k xs))"
    by (metis append_take_drop_id concat_append map_append)
  then show ?thesis by (simp add: prefix_def)
qed

lemma py_slice_to_take: "\<exists>k. py_slice_to n xs = take k xs"
  by (auto simp: py_slice_to_def)

lemma wrap_text_unfold:
  assumes "wrap_loop c f sz mw ml (py_split content) [] [] = (L, C)"
  shows "wrap_text c content f sz mw ml =
     (let L2 = (if C \<noteq> [] \<and> (case limit_of ml of None \<Rightarrow> True | Some n \<Rightarrow> int (length L) < n)
                then L @ [join_space C] else L)
      in case limit_of ml of None \<Rightarrow> L2 | Some n \<Rightarrow> py_slice_to n L2)"
  using assms by (simp add: wrap_text_def Let_def)

text \<open>
  Claim C5, as the code has it. A line wider than \<open>max_width\<close> is one of the words of the
  content. The words of the lines are a prefix of the words of the content, in order;
  they are all the words when there is no limit, and when the lines are fewer than the
  limit. With \<open>max_lines\<close> at least one, there are at most \<open>max_lines\<close> lines.
\<close>

theorem wrap_text_lines:
  "(\<forall>line \<in> set (wrap_text c content f sz mw ml).
       mw < stringWidth c line f sz \<longrightarrow> line \<in> set (py_split content)) \<and>
   prefix (concat (map py_split (wrap_text c content f sz mw ml))) (py_split content) \<and>
   (limit_of ml = None \<longrightarrow>
       concat (map py_split (wrap_text c content f sz mw ml)) = py_split content) \<and>
   (\<forall>n. limit_of ml = Some n \<and> int (length (wrap_text c content f sz mw ml)) < n \<longrightarrow>
       concat (map py_split (wrap_text c content f sz mw ml)) = py_split content) \<and>
   (\<forall>n. ml = Some n \<and> 1 \<le> n \<longrightarrow> int (length (wrap_text c content f sz mw ml)) \<le> n)"
proof -
  let ?words = "py_split content"
  let ?out = "wrap_text c content f sz mw ml"
  obtain L C where loop: "wrap_loop c f sz mw ml ?words [] [] = (L, C)"
    by (cases "wrap_loop c f sz mw ml ?words [] []") auto
  define L2 where "L2 = (if C \<noteq> [] \<and> (case limit_of ml of None \<Rightarrow> True | Some n \<Rightarrow> int (length L) < n)
                then L @ [join_space C] else L)"
  have out: "?out = (case limit_of ml of None \<Rightarrow> L2 | Some n \<Rightarrow> py_slice_to n L2)"
    unfolding wrap_text_unfold[OF loop] L2_def Let_def ..
  obtain k where k: "?out = take k L2"
    using out py_slice_to_take[of _ L2] by (cases "limit_of ml") (auto intro: that[of "length L2"])
  \<comment> \<open>widths\<close>
  have W: "(\<forall>l \<in> set L. stringWidth c l f sz \<le> mw \<or> l \<in> set ?words) \<and>
         (C = [] \<or> stringWidth c (join_space C) f sz \<le> mw \<or> (\<exists>w \<in> set ?words. C = [w]))"
    by (rule wrap_loop_widths[OF loop]) simp_all
  have W2: "\<forall>l \<in> set L2. stringWidth c l f sz \<le> mw \<or> l \<in> set ?words"
    using W unfolding L2_def by auto
  have widths: "\<forall>line \<in> set ?out. mw < stringWidth c line f sz \<longrightarrow> line \<in> set ?words"
  proof
    fix line assume "line \<in> set ?out"
    then have "line \<in> set L2" unfolding k by (rule in_set_takeD)
    with W2 show "mw < stringWidth c line f sz \<longrightarrow> line \<in> set ?words" by force
  qed
  \<comment> \<open>words\<close>
  have cl: "\<forall>w \<in> set ?words \<union> set []. clean_word w" by (simp add: py_split_clean)
  from wrap_loop_words[OF loop cl] obtain rest where
    R: "concat (map py_split L) @ C @ rest = ?words"
       "\<forall>w \<in> set C. clean_word w"
       "rest \<noteq> [] \<longrightarrow> (\<exists>n. limit_of ml = Some n \<and> n \<le> int (length L))" by auto
  have jC: "py_split (join_space C) = C" using R(2) by (simp add: py_split_join)
  have p2: "prefix (concat (map py_split L2)) ?words"
  proof (cases "L2 = L")
    case True
    then show ?thesis using R(1) by (metis prefixI)
  next
    case False
    then have "L2 = L @ [join_space C]" unfolding L2_def by (auto split: if_splits)
    then have "concat (map py_split L2) = concat (map py_split L) @ C" using jC by simp
    then show ?thesis using R(1) by (metis append.assoc prefixI)
  qed
  have pre: "prefix (concat (map py_split ?out)) ?words"
    unfolding k using prefix_concat_take p2 by (rule prefix_order.trans)
  \<comment> \<open>nothing is lost while the limit is not reached\<close>
  have full: "concat (map py_split L2) = ?words"
    if "rest = []" and "C \<noteq> [] \<longrightarrow> L2 = L @ [join_space C]"
  proof (cases "C = []")
    case True
    then have "L2 = L" unfolding L2_def by simp
    with True R(1) that(1) show ?thesis by simp
  next
    case False
    with that(2) have "L2 = L @ [join_space C]" by simp
    then have "concat (map py_split L2) = concat (map py_split L) @ C" using jC by simp
    with R(1) that(1) show ?thesis by simp
  qed
  have none: "limit_of ml = None \<longrightarrow> concat (map py_split ?out) = ?words"
  proof
    assume N: "limit_of ml = None"
    then have o: "?out = L2" using out by simp
    have "rest = []" using R(3) N by auto
    moreover have "C \<noteq> [] \<longrightarrow> L2 = L @ [join_space C]" unfolding L2_def using N by simp
    ultimately show "concat (map py_split ?out) = ?words" unfolding o by (rule full)
  qed
  have some: "\<forall>n. limit_of ml = Some n \<and> int (length ?out) < n \<longrightarrow>
       concat (map py_split ?out) = ?words"
  proof (intro allI impI)
    fix n assume A: "limit_of ml = Some n \<and> int (length ?out) < n"
    then have S: "limit_of ml = Some n" and lt: "int (length ?out) < n" by auto
    have o: "?out = py_slice_to n L2" using out S by simp
    have n1: "1 \<le> n" using lt by linarith
    then have o': "?out = take (nat n) L2" using o by (simp add: py_slice_to_def)
    have len: "int (length L2) < n"
    proof (rule ccontr)
      assume "\<not> int (length L2) < n"
      then have "nat n \<le> length L2" by linarith
      then have "length ?out = nat n" unfolding o' by simp
      with lt n1 show False by simp
    qed
    have LL: "length L \<le> length L2" unfolding L2_def by simp
    then have Ln: "int (length L) < n" using len by linarith
    have "rest = []" using R(3) S Ln by auto
    moreover have "C \<noteq> [] \<longrightarrow> L2 = L @ [join_space C]" unfolding L2_def using S Ln by simp
    ultimately have "concat (map py_split L2) = ?words" by (rule full)
    moreover have "?out = L2" unfolding o' using len by simp
    ultimately show "concat (map py_split ?out) = ?words" by simp
  qed
  have bound: "\<forall>n. ml = Some n \<and> 1 \<le> n \<longrightarrow> int (length ?out) \<le> n"
  proof (intro allI impI)
    fix n assume "ml = Some n \<and> 1 \<le> n"
    then have S: "limit_of ml = Some n" and n1: "1 \<le> n" by (auto simp: limit_of_def)
    have "?out = take (nat n) L2" using out S n1 by (simp add: py_slice_to_def)
    then show "int (length ?out) \<le> n" using n1 by simp
  qed
  from widths pre none some bound show ?thesis by blast
qed

theorem wrap_text_lines_witness:
  "wrap_text courier_canvas ''a Supercalifragilisticexpialidocious bb cc'' ''Courier'' 10 60 (Some 4)
     = [''a'', ''Supercalifragilisticexpialidocious'', ''bb cc''] \<and>
   60 < stringWidth courier_canvas ''Supercalifragilisticexpialidocious'' ''Courier'' 10 \<and>
   ''Supercalifragilisticexpialidocious''
     \<in> set (py_split ''a Supercalifragilisticexpialidocious bb cc'') \<and>
   concat (map py_split [''a'', ''Supercalifragilisticexpialidocious'', ''bb cc''])
     = py_split ''a Supercalifragilisticexpialidocious bb cc'' \<and>
   int (length [''a'', ''Supercalifragilisticexpialidocious'', ''bb cc'']) \<le> 4"
proof -
  let ?X = "''a Supercalifragilisticexpialidocious bb cc''"
  let ?S = "''Supercalifragilisticexpialidocious''"
  have e: "wrap_text courier_canvas ?X ''Courier'' 10 60 (Some 4) = [''a'', ?S, ''bb cc'']"
    by code_simp
  note t = wrap_text_lines [of courier_canvas ?X "''Courier''" 10 60 "Some 4", unfolded e]
  have w: "60 < stringWidth courier_canvas ?S ''Courier'' 10"
    by (simp add: courier_canvas_def courier_width_def)
  from t have "60 < stringWidth courier_canvas ?S ''Courier'' 10 \<longrightarrow> ?S \<in> set (py_split ?X)"
    by simp
  with w have m: "?S \<in> set (py_split ?X)" by simp
  have l: "limit_of (Some 4) = Some 4 \<and> int (length [''a'', ?S, ''bb cc'']) < 4"
    by (simp add: limit_of_def)
  from t l have c: "concat (map py_split [''a'', ?S, ''bb cc'']) = py_split ?X" by blast
  from t have b: "int (length [''a'', ?S, ''bb cc'']) \<le> 4" by simp
  from e w m c b show ?thesis by (intro conjI)
qed

text \<open>
  Claim C5 as stated fails for the words: where the limit is reached the loop stops and
  the words not yet placed are in no line.
\<close>

theorem wrap_text_words_counterexample:
  "wrap_text courier_canvas ''Merry Christmas and a happy new year to you'' ''Courier'' 12 72 (Some 2)
     = [''Merry'', ''Christmas''] \<and>
   concat (map py_split [''Merry'', ''Christmas''])
     \<noteq> py_split ''Merry Christmas and a happy new year to you''"
  by code_simp

section \<open>Fitting and rendering a text element\<close>

lemma AdjustmentResult_new_fields:
  "AdjustmentResult_new adjusted strategy original final used truncated = Inr result \<Longrightarrow>
     strategy_applied result = strategy \<and> content_truncated result = truncated \<and>
     original_font_size result = original \<and> final_font_size result = final \<and>
     lines_used result = used \<and> was_adjusted result = adjusted"
  by (auto simp: AdjustmentResult_new_def split: if_splits)

lemma fit_text_element_example: "fit_text_element courier_renderer example_text example_panel =
  Inr (12, [''Merry'', ''Christmas''],
      \<lparr>was_adjusted = True, strategy_applied = WRAP,
         original_font_size = 12, final_font_size = 12, lines_used = 2,
         content_truncated = False\<rparr>)"
  by code_simp

text \<open>
  Claim C10: where the strategy chosen is \<open>WRAP\<close>, the \<open>AdjustmentResult\<close> that
  \<open>_fit_text_element\<close> returns has \<open>content_truncated = False\<close>; the branch sets it
  without looking at the lines. The witness is a text whose last seven words
  \<open>wrap_text\<close> dropped at the limit of two lines.
\<close>

theorem wrap_never_reports_truncation:
  assumes fit: "fit_text_element self t panel = Inr (final_size, lines, result)"
      and wrap: "(if text_overflow_strategy t = AUTO then select_auto_strategy t
            else text_overflow_strategy t) = WRAP"
  shows "strategy_applied result = WRAP \<and> \<not> content_truncated result"
proof (cases "apply_wrap_strategy self t panel")
  case (Inl e)
  then have "fit_text_element self t panel = Inl e"
    unfolding fit_text_element_def Let_def wrap by simp
  with fit show ?thesis by simp
next
  case (Inr p)
  obtain fs ls where p: "p = (fs, ls)" by (cases p)
  have "fit_text_element self t panel =
      (case AdjustmentResult_new (fs \<noteq> text_font_size t \<or> False \<or> length ls > 1)
                  WRAP (text_font_size t) fs (int (length ls)) False of
             Inl e \<Rightarrow> Inl e
           | Inr result \<Rightarrow> Inr (fs, ls, result))"
    unfolding fit_text_element_def Let_def wrap Inr p by simp
  with fit have "AdjustmentResult_new (fs \<noteq> text_font_size t \<or> False \<or> length ls > 1)
                  WRAP (text_font_size t) fs (int (length ls)) False = Inr result"
    by (simp split: sum.splits)
  from AdjustmentResult_new_fields[OF this] show ?thesis by simp
qed

theorem wrap_never_reports_truncation_witness:
  "fit_text_element courier_renderer example_text example_panel =
     Inr (12, [''Merry'', ''Christmas''],
          \<lparr>was_adjusted = True, strategy_applied = WRAP, original_font_size = 12,
             final_font_size = 12, lines_used = 2, content_truncated = False\<rparr>) \<and>
   \<not> content_truncated
        \<lparr>was_adjusted = True, strategy_applied = WRAP, original_font_size = 12,
             final_font_size = 12, lines_used = 2, content_truncated = False\<rparr> \<and>
   concat (map py_split [''Merry'', ''Christmas'']) \<noteq> py_split (text_content example_text)"
proof -
  have s: "(if text_overflow_strategy example_text = AUTO then select_auto_strategy example_text
            else text_overflow_strategy example_text) = WRAP"
    by (simp add: example_text_def)
  have l: "concat (map py_split [''Merry'', ''Christmas'']) \<noteq> py_split (text_content example_text)"
    by code_simp
  from wrap_never_reports_truncation [OF fit_text_element_example s] fit_text_element_example l
  show ?thesis by blast
qed

lemma render_text_canvas:
  assumes "render_text self t panel = Inr (self', t')"
  shows "\<exists>c. self_canvas self = Some c"
proof (rule ccontr)
  assume "\<not> (\<exists>c. self_canvas self = Some c)"
  then have "self_canvas self = None" by simp
  then have "render_text self t panel = Inl RuntimeError" by (simp add: render_text_def)
  with assms show False by simp
qed

lemma render_text_no_width:
  assumes c: "self_canvas self = Some c"
      and w: "text_width t = None \<or> text_width t = Some 0"
  shows "snd (projr (render_text self t panel)) = t"
  using w
proof
  assume "text_width t = None"
  then show ?thesis unfolding render_text_def Let_def c by simp
next
  assume "text_width t = Some 0"
  then show ?thesis unfolding render_text_def Let_def c by simp
qed

lemma render_text_fit_fails:
  assumes c: "self_canvas self = Some c"
      and w: "text_width t \<noteq> None \<and> text_width t \<noteq> Some 0"
      and fit: "fit_text_element self t panel = Inl e"
  shows "render_text self t panel = Inl e"
  using w unfolding render_text_def Let_def c fit by simp

lemma render_text_fit:
  assumes c: "self_canvas self = Some c"
      and w: "text_width t \<noteq> None \<and> text_width t \<noteq> Some 0"
      and fit: "fit_text_element self t panel = Inr (fs, ls, r)"
  shows "snd (projr (render_text self t panel)) = set_adjustment_result t r"
  using w unfolding render_text_def Let_def c fit by simp

text \<open>
  Claim C1, as the code has it. \<open>render_text\<close> changes the text element in one field:
  with a width constraint (\<open>text.width\<close> neither \<open>None\<close> nor zero) it stores the
  \<open>AdjustmentResult\<close> of \<open>_fit_text_element\<close> in the element and leaves every other
  field as it was; without one the element is as before. \<open>_fit_text_element\<close> itself
  returns its three results and changes nothing.
\<close>

theorem render_text_changes_adjustment_only:
  assumes "render_text self t panel = Inr (self', t')"
  shows "(text_width t = None \<or> text_width t = Some 0 \<longrightarrow> t' = t) \<and>
         (text_width t \<noteq> None \<and> text_width t \<noteq> Some 0 \<longrightarrow>
            (\<exists>final_size lines result.
               fit_text_element self t panel = Inr (final_size, lines, result) \<and>
               t' = t\<lparr>text_adjustment_applied := Some result\<rparr>))"
proof -
  from render_text_canvas[OF assms] obtain c where c: "self_canvas self = Some c" ..
  have t': "snd (projr (render_text self t panel)) = t'" unfolding assms by simp
  show ?thesis
  proof (intro conjI impI)
    assume "text_width t = None \<or> text_width t = Some 0"
    from render_text_no_width[OF c this, of panel] t' show "t' = t" by simp
  next
    assume w: "text_width t \<noteq> None \<and> text_width t \<noteq> Some 0"
    show "\<exists>final_size lines result.
               fit_text_element self t panel = Inr (final_size, lines, result) \<and>
               t' = t\<lparr>text_adjustment_applied := Some result\<rparr>"
    proof (cases "fit_text_element self t panel")
      case (Inl e)
      from render_text_fit_fails[OF c w Inl] assms show ?thesis by simp
    next
      case (Inr q)
      obtain fs ls r where q: "q = (fs, ls, r)" by (cases q)
      from render_text_fit[OF c w Inr[unfolded q]] t'
      have "t' = t\<lparr>text_adjustment_applied := Some r\<rparr>"
        by (simp add: set_adjustment_result_def)
      with Inr q show ?thesis by blast
    qed
  qed
qed

lemma render_text_example:
  "render_text courier_renderer example_text example_panel =
     Inr (\<lparr>self_canvas = Some \<lparr>stringWidth = courier_width,
              ops = [SetFont ''Courier'' 12, SetFillColorRGB 0 0 0,
                     DrawString 72 72 ''Merry'', DrawString 72 (288 / 5) ''Christmas'']\<rparr>\<rparr>,
          example_text\<lparr>text_adjustment_applied :=
            Some \<lparr>was_adjusted = True, strategy_applied = WRAP, original_font_size = 12,
                  final_font_size = 12, lines_used = 2, content_truncated = False\<rparr>\<rparr>)"
proof -
  have c: "self_canvas courier_renderer = Some courier_canvas"
    by (simp add: courier_renderer_def)
  have w: "(text_width example_text \<noteq> None \<and> text_width example_text \<noteq> Some 0) = True"
    by (simp add: example_text_def)
  have fn: "get_font_name (text_font_family example_text)
      (FontStyle_value (text_font_style example_text)) = ''Courier''"
    by code_simp
  have al: "TextAlignment_value (text_alignment example_text) = ''left''"
    by code_simp
  have col: "text_color example_text = None"
    by (simp add: example_text_def)
  have ali: "text_alignment (set_adjustment_result example_text r) = text_alignment example_text" for r
    by (simp add: set_adjustment_result_def)
  have pos: "inches_to_points (panel_x example_panel + text_x example_text) = 72"
    "inches_to_points (panel_y example_panel + text_y example_text) = 72"
    by (simp_all add: inches_to_points_def example_panel_def example_text_def)
  have dl: "draw_lines ''left'' 72 72 (calculate_line_height 12) 0 [''Merry'', ''Christmas'']
      = [DrawString 72 72 ''Merry'', DrawString 72 (288 / 5) ''Christmas'']"
    by (simp add: calculate_line_height_def)
  show ?thesis
    unfolding render_text_def Let_def c w fit_text_element_example
    by (simp add: fn al col ali pos dl set_adjustment_result_def courier_renderer_def
        courier_canvas_def calculate_line_height_def)
qed

theorem render_text_changes_adjustment_only_witness:
  "\<exists>final_size lines result.
     fit_text_element courier_renderer example_text example_panel =
       Inr (final_size, lines, result) \<and>
     example_text\<lparr>text_adjustment_applied :=
        Some \<lparr>was_adjusted = True, strategy_applied = WRAP, original_font_size = 12,
              final_font_size = 12, lines_used = 2, content_truncated = False\<rparr>\<rparr>
       = example_text\<lparr>text_adjustment_applied := Some result\<rparr>"
proof -
  have w: "text_width example_text \<noteq> None \<and> text_width example_text \<noteq> Some 0"
    by (simp add: example_text_def)
  from render_text_changes_adjustment_only [OF render_text_example, THEN conjunct2, rule_format, OF w]
  show ?thesis .
qed

text \<open>
  Claim C1 as stated fails: an element that has recorded no adjustment has one recorded
  after \<open>render_text\<close>.
\<close>

theorem render_text_mutates_counterexample:
  "get_adjustment_result example_text = None \<and>
   map_sum id (get_adjustment_result \<circ> snd)
      (render_text courier_renderer example_text example_panel) =
     Inr (Some \<lparr>was_adjusted = True, strategy_applied = WRAP, original_font_size = 12,
                final_font_size = 12, lines_used = 2, content_truncated = False\<rparr>)"
  unfolding render_text_example
  by (simp add: get_adjustment_result_def example_text_def)

section \<open>Gradient end points (\<open>utils/gradient_utils.py\<close>)\<close>









section \<open>Colours as hexadecimal strings (\<open>Color\<close> in \<open>core/models.py\<close>)\<close>

definition py_int :: "real \<Rightarrow> int" where
  \<comment> \<open>\<open>int(x)\<close> of a float: truncation towards zero\<close>
  "py_int a = (if 0 \<le> a then \<lfloor>a\<rfloor> else \<lceil>a\<rceil>)"

definition hex_digit :: "nat \<Rightarrow> char" where
  "hex_digit d = ''0123456789abcdef'' ! d"

fun hex_str :: "nat \<Rightarrow> string" where
  "hex_str n = (if n < 16 then [hex_digit n] else hex_str (n div 16) @ [hex_digit (n mod 16)])"

definition format_02x :: "int \<Rightarrow> string" where
  \<comment> \<open>\<open>f"{n:02x}"\<close>: lower-case hexadecimal, padded with zeros after the sign to two
     characters\<close>
  "format_02x n =
     (if n < 0 then
        (let ds = hex_str (nat (- n)) in CHR ''-'' # replicate (2 - 1 - length ds) (CHR ''0'') @ ds)
      else (let ds = hex_str (nat n) in replicate (2 - length ds) (CHR ''0'') @ ds))"

definition to_hex :: "Color \<Rightarrow> string" where
  "to_hex col =
     CHR ''#'' # format_02x (py_int (color_r col * 255)) @ format_02x (py_int (color_g col * 255))
       @ format_02x (py_int (color_b col * 255))"

text \<open>
  \<open>int(s, 16)\<close>: white space around the literal is dropped; then come an optional sign,
  an optional prefix \<open>0x\<close> or \<open>0X\<close>, and hexadecimal digits, where one underscore may
  stand between two digits and between the prefix and the first digit.
\<close>

definition hex_value :: "char \<Rightarrow> nat option" where
  "hex_value ch =
     (let n = (of_char ch :: nat) in
      if 48 \<le> n \<and> n \<le> 57 then Some (n - 48)
      else if 97 \<le> n \<and> n \<le> 102 then Some (n - 87)
      else if 65 \<le> n \<and> n \<le> 70 then Some (n - 55)
      else None)"

fun hex_rest :: "nat \<Rightarrow> string \<Rightarrow> nat option" where
  "hex_rest acc [] = Some acc"
| "hex_rest acc [ch] = (case hex_value ch of Some v \<Rightarrow> Some (16 * acc + v) | None \<Rightarrow> None)"
| "hex_rest acc (ch # d # rest) =
     (if ch = CHR ''_'' then
        (case hex_value d of Some v \<Rightarrow> hex_rest (16 * acc + v) rest | None \<Rightarrow> None)
      else (case hex_value ch of Some v \<Rightarrow> hex_rest (16 * acc + v) (d # rest) | None \<Rightarrow> None))"

definition hex_number :: "string \<Rightarrow> nat option" where
  "hex_number s =
     (case s of [] \<Rightarrow> None
      | ch # rest \<Rightarrow> (case hex_value ch of Some v \<Rightarrow> hex_rest v rest | None \<Rightarrow> None))"

definition py_int16 :: "string \<Rightarrow> int option" where
  "py_int16 s =
     (let s1 = py_strip s;
          neg = (case s1 of [] \<Rightarrow> False | ch # _ \<Rightarrow> ch = CHR ''-'');
          s2 = (case s1 of [] \<Rightarrow> [] | ch # t \<Rightarrow> if ch = CHR ''-'' \<or> ch = CHR ''+'' then t else s1);
          v = (case s2 of
                 z # x # t \<Rightarrow>
                   if z = CHR ''0'' \<and> (x = CHR ''x'' \<or> x = CHR ''X'') then
                     (case t of
                        [] \<Rightarrow> None
                      | u # t' \<Rightarrow> if u = CHR ''_'' then hex_number t' else hex_number t)
                   else hex_number s2
               | _ \<Rightarrow> hex_number s2)
      in case v of None \<Rightarrow> None | Some m \<Rightarrow> Some (if neg then - int m else int m))"

text \<open>What \<open>from_hex\<close> can raise: its own \<open>ValueError\<close> for a wrong length, the
  \<open>ValueError\<close> of \<open>int(s, 16)\<close>, and the pydantic error of the constructor for a
  component outside \<open>[0, 1]\<close>.\<close>

datatype color_error = InvalidHexColor | InvalidLiteral | ColorValidationError

definition Color_new :: "real \<Rightarrow> real \<Rightarrow> real \<Rightarrow> color_error + Color" where
  "Color_new a b c =
     (if 0 \<le> a \<and> a \<le> 1 \<and> 0 \<le> b \<and> b \<le> 1 \<and> 0 \<le> c \<and> c \<le> 1
      then Inr \<lparr>color_r = a, color_g = b, color_b = c\<rparr> else Inl ColorValidationError)"

definition from_hex :: "string \<Rightarrow> color_error + Color" where
  "from_hex hex_color =
     (let hex_color = dropWhile (\<lambda>ch. ch = CHR ''#'') hex_color in
      if length hex_color \<noteq> 6 then Inl InvalidHexColor
      else
        (case py_int16 (take 2 hex_color) of
           None \<Rightarrow> Inl InvalidLiteral
         | Some ri \<Rightarrow>
             (case py_int16 (take 2 (drop 2 hex_color)) of
                None \<Rightarrow> Inl InvalidLiteral
              | Some gi \<Rightarrow>
                  (case py_int16 (take 2 (drop 4 hex_color)) of
                     None \<Rightarrow> Inl InvalidLiteral
                   | Some bi \<Rightarrow>
                       Color_new (real_of_int ri / 255) (real_of_int gi / 255)
                         (real_of_int bi / 255)))))"

lemma hex_digit_props:
  assumes "d < 16"
  shows "hex_value (hex_digit d) = Some d" and "\<not> py_isspace (hex_digit d)"
    and "hex_digit d \<noteq> CHR ''-''" and "hex_digit d \<noteq> CHR ''+''"
    and "hex_digit d \<noteq> CHR ''x''" and "hex_digit d \<noteq> CHR ''X''"
    and "hex_digit d \<noteq> CHR ''_''" and "hex_digit d \<noteq> CHR ''#''"
proof -
  have "\<forall>d \<in> set [0..<16].
      hex_value (hex_digit d) = Some d \<and> \<not> py_isspace (hex_digit d) \<and>
      hex_digit d \<noteq> CHR ''-'' \<and> hex_digit d \<noteq> CHR ''+'' \<and>
      hex_digit d \<noteq> CHR ''x'' \<and> hex_digit d \<noteq> CHR ''X'' \<and>
      hex_digit d \<noteq> CHR ''_'' \<and> hex_digit d \<noteq> CHR ''#''"
    by code_simp
  with assms show "hex_value (hex_digit d) = Some d" and "\<not> py_isspace (hex_digit d)"
    and "hex_digit d \<noteq> CHR ''-''" and "hex_digit d \<noteq> CHR ''+''"
    and "hex_digit d \<noteq> CHR ''x''" and "hex_digit d \<noteq> CHR ''X''"
    and "hex_digit d \<noteq> CHR ''_''" and "hex_digit d \<noteq> CHR ''#''"
    by simp_all
qed

lemma py_int16_two_digits:
  assumes a: "a < 16" and b: "b < 16"
  shows "py_int16 [hex_digit a, hex_digit b] = Some (int (16 * a + b))"
proof -
  note pa = hex_digit_props [OF a] and pb = hex_digit_props [OF b]
  have strip: "py_strip [hex_digit a, hex_digit b] = [hex_digit a, hex_digit b]"
    using pa(2) pb(2) by (simp add: py_strip_def py_lstrip_def py_rstrip_def)
  have num: "hex_number [hex_digit a, hex_digit b] = Some (16 * a + b)"
    using pa(1,7) pb(1) by (simp add: hex_number_def)
  show ?thesis
    unfolding py_int16_def strip Let_def
    using pa(3,4) pb(5,6) num by simp
qed

lemma format_02x_byte:
  assumes "0 \<le> n" and "n \<le> 255"
  shows "format_02x n = [hex_digit (nat n div 16), hex_digit (nat n mod 16)]"
proof (cases "nat n < 16")
  case True
  then have "hex_str (nat n) = [hex_digit (nat n)]" by simp
  moreover have "hex_digit 0 = CHR ''0''" by (simp add: hex_digit_def)
  ultimately show ?thesis using assms True by (simp add: format_02x_def)
next
  case False
  have "nat n div 16 < 16" using assms by simp
  then have "hex_str (nat n div 16) = [hex_digit (nat n div 16)]" by simp
  with False have "hex_str (nat n) = [hex_digit (nat n div 16), hex_digit (nat n mod 16)]"
    by (subst hex_str.simps) simp
  then show ?thesis using assms by (simp add: format_02x_def)
qed

lemma byte_roundtrip:
  assumes "0 \<le> n" and "n \<le> 255"
  shows "py_int16 (format_02x n) = Some n" and "length (format_02x n) = 2"
    and "hd (format_02x n) \<noteq> CHR ''#''"
proof -
  have a: "nat n div 16 < 16" and b: "nat n mod 16 < 16" using assms by simp_all
  have "16 * (nat n div 16) + nat n mod 16 = nat n" by simp
  then have "int (16 * (nat n div 16) + nat n mod 16) = n" using assms by simp
  then show "py_int16 (format_02x n) = Some n"
    unfolding format_02x_byte [OF assms] py_int16_two_digits [OF a b] by simp
  show "length (format_02x n) = 2" unfolding format_02x_byte [OF assms] by simp
  show "hd (format_02x n) \<noteq> CHR ''#''"
    unfolding format_02x_byte [OF assms] using hex_digit_props(8) [OF a] by simp
qed

lemma py_int_component:
  assumes "0 \<le> a" and "a \<le> 1"
  shows "0 \<le> py_int (a * 255)" and "py_int (a * 255) \<le> 255"
    and "real_of_int (py_int (a * 255)) / 255 \<le> a"
    and "a - real_of_int (py_int (a * 255)) / 255 < 1 / 255"
proof -
  have p: "py_int (a * 255) = \<lfloor>a * 255\<rfloor>" using assms by (simp add: py_int_def)
  show "0 \<le> py_int (a * 255)" unfolding p using assms by simp
  have "a * 255 \<le> 255" using assms by simp
  then show "py_int (a * 255) \<le> 255" unfolding p by (simp add: floor_le_iff)
  have "real_of_int \<lfloor>a * 255\<rfloor> \<le> a * 255" by (rule of_int_floor_le)
  then show "real_of_int (py_int (a * 255)) / 255 \<le> a" unfolding p by simp
  have "a * 255 < real_of_int \<lfloor>a * 255\<rfloor> + 1" by linarith
  then show "a - real_of_int (py_int (a * 255)) / 255 < 1 / 255"
    unfolding p by (simp add: field_simps)
qed

text \<open>
  Claim C6: for a valid colour, \<open>from_hex (to_hex c)\<close> is a colour, and each of its
  components is within less than \<open>1/255\<close> of the component of \<open>c\<close>.
\<close>

theorem color_hex_roundtrip:
  assumes "valid_Color col"
  shows "\<exists>col'. from_hex (to_hex col) = Inr col' \<and>
           \<bar>color_r col' - color_r col\<bar> < 1 / 255 \<and>
           \<bar>color_g col' - color_g col\<bar> < 1 / 255 \<and>
           \<bar>color_b col' - color_b col\<bar> < 1 / 255"
proof -
  define ri gi bi where "ri = py_int (color_r col * 255)" and "gi = py_int (color_g col * 255)"
    and "bi = py_int (color_b col * 255)"
  from assms have v: "0 \<le> color_r col" "color_r col \<le> 1" "0 \<le> color_g col" "color_g col \<le> 1"
    "0 \<le> color_b col" "color_b col \<le> 1" by (simp_all add: valid_Color_def)
  note r = py_int_component [OF v(1,2), folded ri_def]
  note g = py_int_component [OF v(3,4), folded gi_def]
  note b = py_int_component [OF v(5,6), folded bi_def]
  note fr = byte_roundtrip [OF r(1,2)] and fg = byte_roundtrip [OF g(1,2)]
    and fb = byte_roundtrip [OF b(1,2)]
  have hex: "to_hex col = CHR ''#'' # format_02x ri @ format_02x gi @ format_02x bi"
    by (simp add: to_hex_def ri_def gi_def bi_def)
  have ne: "format_02x ri \<noteq> []" using fr(2) by auto
  have strip: "dropWhile (\<lambda>ch. ch = CHR ''#'') (to_hex col)
      = format_02x ri @ format_02x gi @ format_02x bi"
    unfolding hex using fr(3) ne by (cases "format_02x ri") simp_all
  have fh: "from_hex (to_hex col) =
      Color_new (real_of_int ri / 255) (real_of_int gi / 255) (real_of_int bi / 255)"
    unfolding from_hex_def strip Let_def using fr(1,2) fg(1,2) fb(1,2) by simp
  have range: "0 \<le> real_of_int ri / 255" "real_of_int ri / 255 \<le> 1"
    "0 \<le> real_of_int gi / 255" "real_of_int gi / 255 \<le> 1"
    "0 \<le> real_of_int bi / 255" "real_of_int bi / 255 \<le> 1"
    using r(1,2) g(1,2) b(1,2) by simp_all
  have "from_hex (to_hex col) =
      Inr \<lparr>color_r = real_of_int ri / 255, color_g = real_of_int gi / 255,
           color_b = real_of_int bi / 255\<rparr>"
    unfolding fh Color_new_def using range by simp
  moreover have "\<bar>real_of_int ri / 255 - color_r col\<bar> < 1 / 255" using r(3,4) by simp
  moreover have "\<bar>real_of_int gi / 255 - color_g col\<bar> < 1 / 255" using g(3,4) by simp
  moreover have "\<bar>real_of_int bi / 255 - color_b col\<bar> < 1 / 255" using b(3,4) by simp
  ultimately show ?thesis by simp
qed

definition example_color :: Color where
  "example_color = \<lparr>color_r = 1, color_g = 1 / 2, color_b = 999 / 1000\<rparr>"

theorem color_hex_roundtrip_witness:
  "to_hex example_color = ''#ff7ffe'' \<and>
   from_hex (to_hex example_color) = Inr \<lparr>color_r = 1, color_g = 127 / 255, color_b = 254 / 255\<rparr> \<and>
   \<bar>(1::real) - 1\<bar> < 1 / 255 \<and> \<bar>(127::real) / 255 - 1 / 2\<bar> < 1 / 255 \<and>
   \<bar>(254::real) / 255 - 999 / 1000\<bar> < 1 / 255"
proof -
  have v: "valid_Color example_color" by (simp add: valid_Color_def example_color_def)
  have h: "to_hex example_color = ''#ff7ffe''" by code_simp
  have e: "from_hex ''#ff7ffe'' = Inr \<lparr>color_r = 1, color_g = 127 / 255, color_b = 254 / 255\<rparr>"
    by code_simp
  from color_hex_roundtrip [OF v] h e show ?thesis
    by (simp add: example_color_def)
qed

section \<open>Decorative expansion (\<open>core/decorative.py\<close>)\<close>


datatype py_value = IntV int | FloatV real | StrV string | BoolV bool | OtherV
































































end
